theory Spec2Isabelle
  imports Complex_Main "HOL-Library.Stream"
begin

section \<open>Python and numpy primitives used by the ranking notebook\<close>

text \<open>
  The development embeds the notebook \<^verbatim>\<open>6_e_cf_mf_ranking_pred.ipynb\<close>
  (Bayesian Personalized Ranking by matrix factorization). Identifiers are Python
  integers (\<^typ>\<open>int\<close>), factor values are reals, numpy arrays are lists, and every
  exception the code can raise is a value of \<open>error\<close>: a function that may raise
  returns \<open>error + 'a\<close> with \<open>Inl\<close> for the exception.
\<close>

datatype error = KeyError | ValueError | IndexError | ZeroDivisionError

type_synonym vec = "real list"
type_synonym matrix = "real list list"

text \<open>
  The notebook draws from numpy's process-wide generator (\<^verbatim>\<open>np.random.randint\<close>,
  \<^verbatim>\<open>np.random.choice\<close>). Its hidden state is represented by the sequence of raw
  values it is going to deliver; a draw below \<open>n\<close> takes the head of the sequence
  modulo \<open>n\<close> and leaves the tail as the new state.
\<close>

type_synonym gen = "nat stream"

definition randint :: "gen \<Rightarrow> int \<Rightarrow> error + (int \<times> gen)" where
  \<comment> \<open>\<^verbatim>\<open>np.random.randint(n)\<close>: a value in \<open>[0, n)\<close>; ValueError when \<open>n \<le> 0\<close>.\<close>
  "randint g n =
     (if n \<le> 0 then Inl ValueError
      else Inr (int (shd g mod nat n), stl g))"

definition random_choice :: "gen \<Rightarrow> 'a list \<Rightarrow> error + ('a \<times> gen)" where
  \<comment> \<open>\<^verbatim>\<open>np.random.choice(a)\<close>: an element of \<open>a\<close>; ValueError when \<open>a\<close> is empty.\<close>
  "random_choice g a =
     (if a = [] then Inl ValueError
      else Inr (a ! (shd g mod length a), stl g))"

definition np_wrap :: "nat \<Rightarrow> int \<Rightarrow> error + nat" where
  \<comment> \<open>numpy index normalisation on an axis of length \<open>n\<close>: negative indices count
      from the end, anything else out of range raises IndexError.\<close>
  "np_wrap n i =
     (if 0 \<le> i \<and> i < int n then Inr (nat i)
      else if - int n \<le> i \<and> i < 0 then Inr (nat (int n + i))
      else Inl IndexError)"

definition np_getitem :: "'a list \<Rightarrow> int \<Rightarrow> error + 'a" where
  \<comment> \<open>\<^verbatim>\<open>a[i]\<close> for an integer \<open>i\<close>.\<close>
  "np_getitem a i =
     (case np_wrap (length a) i of Inl e \<Rightarrow> Inl e | Inr j \<Rightarrow> Inr (a ! j))"

fun np_take :: "'a list \<Rightarrow> int list \<Rightarrow> error + 'a list" where
  \<comment> \<open>\<^verbatim>\<open>a[idx]\<close> for an integer array \<open>idx\<close>: one row per index.\<close>
  "np_take a [] = Inr []"
| "np_take a (i # idx) =
     (case np_getitem a i of
        Inl e \<Rightarrow> Inl e
      | Inr r \<Rightarrow> (case np_take a idx of Inl e \<Rightarrow> Inl e | Inr rs \<Rightarrow> Inr (r # rs)))"

definition unique :: "int list \<Rightarrow> int list" where
  \<comment> \<open>\<^verbatim>\<open>np.unique\<close>: the sorted distinct values.\<close>
  "unique xs = sort (remdups xs)"

definition setdiff1d :: "int list \<Rightarrow> int list \<Rightarrow> int list" where
  \<comment> \<open>\<^verbatim>\<open>np.setdiff1d(ar1, ar2)\<close>: the sorted distinct values of \<open>ar1\<close> not in \<open>ar2\<close>.\<close>
  "setdiff1d ar1 ar2 = filter (\<lambda>x. x \<notin> set ar2) (unique ar1)"

definition intersect1d :: "int list \<Rightarrow> int list \<Rightarrow> int list" where
  \<comment> \<open>\<^verbatim>\<open>np.intersect1d(ar1, ar2)\<close>: the sorted distinct common values.\<close>
  "intersect1d ar1 ar2 = filter (\<lambda>x. x \<in> set ar2) (unique ar1)"

section \<open>FeedbackIndex: positive items and negative candidates per user\<close>

text \<open>
  \<^verbatim>\<open>
  grouped = ratings[['user', 'item']].groupby('user')
  groups = grouped.groups.keys()
  for user in data.users:
      pos_items = []
      if user in groups:
          pos_items = grouped.get_group(user).item.values
      neg_items = np.setdiff1d(data.items, pos_items)
      user_pos_items[user] = pos_items
      user_neg_items[user] = neg_items
  \<close>
  \<open>ratings\<close> is the training table as a list of (user, item) rows; \<open>users\<close> and
  \<open>items\<close> are \<^verbatim>\<open>data.users\<close> and \<^verbatim>\<open>data.items\<close>, supplied by the data loader.
\<close>

record feedback_index =
  user_pos_items :: "int \<rightharpoonup> int list"
  user_neg_items :: "int \<rightharpoonup> int list"

definition get_group :: "(int \<times> int) list \<Rightarrow> int \<Rightarrow> int list" where
  "get_group ratings user = map snd (filter (\<lambda>r. fst r = user) ratings)"

definition index_user ::
  "int list \<Rightarrow> (int \<times> int) list \<Rightarrow> feedback_index \<Rightarrow> int \<Rightarrow> feedback_index" where
  "index_user items ratings fi user =
     (let pos_items = (if user \<in> set (map fst ratings) then get_group ratings user else []);
          neg_items = setdiff1d items pos_items
      in fi\<lparr>user_pos_items := (user_pos_items fi)(user \<mapsto> pos_items),
            user_neg_items := (user_neg_items fi)(user \<mapsto> neg_items)\<rparr>)"

definition build_index ::
  "int list \<Rightarrow> int list \<Rightarrow> (int \<times> int) list \<Rightarrow> feedback_index" where
  "build_index users items ratings =
     foldl (index_user items ratings)
       \<lparr>user_pos_items = Map.empty, user_neg_items = Map.empty\<rparr> users"

section \<open>NegativeSampler\<close>

text \<open>
  \<^verbatim>\<open>
  def negative_sampling(user, user_neg_items):
      negative_item = np.random.choice(user_neg_items[user])
      return negative_item
  \<close>
  The dictionary lookup raises KeyError for an unknown user; the draw raises
  ValueError on an empty array. The ValueError of the empty draw is the failure the
  specification calls \<open>EmptyNegativePoolError\<close>.
\<close>

definition negative_sampling ::
  "gen \<Rightarrow> int \<Rightarrow> (int \<rightharpoonup> int list) \<Rightarrow> error + (int \<times> gen)" where
  "negative_sampling g user neg_items =
     (case neg_items user of
        None \<Rightarrow> Inl KeyError
      | Some a \<Rightarrow> random_choice g a)"

section \<open>LatentFactorStore and PairwiseGradientEngine\<close>

text \<open>
  The two factor matrices are global numpy arrays that the training loop mutates in
  place; here they are a record passed to each operation and returned updated.
  \<^verbatim>\<open>l2_decay = {'user': 0.0, 'pos': 0.0, 'neg': 0.0}\<close> is a record with one field per
  key.
\<close>

record model_state =
  user_factors :: matrix
  item_factors :: matrix

record decay =
  user_decay :: real
  pos_decay :: real
  neg_decay :: real

definition sigmoid :: "real \<Rightarrow> real" where
  \<comment> \<open>\<^verbatim>\<open>def sigmoid(x): return 1/(1+np.exp(-x))\<close>\<close>
  "sigmoid x = 1 / (1 + exp (- x))"

definition vsub :: "vec \<Rightarrow> vec \<Rightarrow> vec" where
  "vsub a b = map2 (-) a b"

definition vadd :: "vec \<Rightarrow> vec \<Rightarrow> vec" where
  "vadd a b = map2 (+) a b"

definition smul :: "real \<Rightarrow> vec \<Rightarrow> vec" where
  "smul c a = map ((*) c) a"

definition dot :: "vec \<Rightarrow> vec \<Rightarrow> real" where
  \<comment> \<open>\<^verbatim>\<open>np.sum(a * b)\<close> for two vectors of one shape.\<close>
  "dot a b = sum_list (map2 (*) a b)"

text \<open>
  Modelled from the spec: the body of \<open>compute_gradients\<close>. The notebook is the
  exercise version of the unit and leaves the body blank:
  \<^verbatim>\<open>
  def compute_gradients(user_embed, pos_item_embed, neg_item_embed, l2_decay):
      pass
      return user_grad, pos_item_grad, neg_item_grad
  \<close>
  Only the signature, the returned triple and the caller are in the source. The
  body below follows section 4.4 of the specification: \<open>x_hat = w\<cdot>h_i - w\<cdot>h_j\<close>,
  \<open>g = sigmoid x_hat - 1\<close>, and the gradients \<open>g\<cdot>(h_i - h_j) + \<lambda>_w\<cdot>w\<close>,
  \<open>g\<cdot>w + \<lambda>_pos\<cdot>h_i\<close> and \<open>-g\<cdot>w + \<lambda>_neg\<cdot>h_j\<close>.
\<close>

definition compute_gradients :: "vec \<Rightarrow> vec \<Rightarrow> vec \<Rightarrow> decay \<Rightarrow> vec \<times> vec \<times> vec" where
  \<comment> \<open>Modelled from the spec: the body, which the exercise notebook leaves as
      \<^verbatim>\<open>pass\<close>; section 4.4 of the specification gives the gradients.\<close>
  "compute_gradients user_embed pos_item_embed neg_item_embed l2_decay =
     (let x_hat = dot user_embed pos_item_embed - dot user_embed neg_item_embed;
          g = sigmoid x_hat - 1;
          user_grad = vadd (smul g (vsub pos_item_embed neg_item_embed))
                           (smul (user_decay l2_decay) user_embed);
          pos_item_grad = vadd (smul g user_embed) (smul (pos_decay l2_decay) pos_item_embed);
          neg_item_grad = vadd (smul (- g) user_embed) (smul (neg_decay l2_decay) neg_item_embed)
      in (user_grad, pos_item_grad, neg_item_grad))"

definition row_isub :: "matrix \<Rightarrow> int \<Rightarrow> vec \<Rightarrow> error + matrix" where
  \<comment> \<open>\<^verbatim>\<open>M[i] -= v\<close>: read row \<open>i\<close>, subtract, store it back.\<close>
  "row_isub M i v =
     (case np_wrap (length M) i of
        Inl e \<Rightarrow> Inl e
      | Inr j \<Rightarrow> Inr (M[j := vsub (M ! j) v]))"

section \<open>RankingTrainer\<close>

text \<open>
  The body of the inner training loop, after the triple has been sampled:
  \<^verbatim>\<open>
  user_embed = user_factors[user - 1]
  pos_item_embed = item_factors[pos_item - 1]
  neg_item_embed = item_factors[neg_item - 1]
  user_grad, pos_item_grad, neg_item_grad = \
      compute_gradients(user_embed, pos_item_embed, neg_item_embed, l2_decay)
  user_factors[user - 1] -= learning_rate * user_grad
  item_factors[pos_item - 1] -= learning_rate * pos_item_grad
  item_factors[neg_item - 1] -= learning_rate * neg_item_grad
  \<close>
  The three gradients are computed from the rows as they are before any update; the
  second item update reads the matrix the first one has written.
\<close>

definition sgd_update ::
  "real \<Rightarrow> decay \<Rightarrow> int \<Rightarrow> int \<Rightarrow> int \<Rightarrow> model_state \<Rightarrow> error + model_state" where
  "sgd_update learning_rate l2_decay user pos_item neg_item st =
     (case np_getitem (user_factors st) (user - 1) of
        Inl e \<Rightarrow> Inl e
      | Inr user_embed \<Rightarrow>
     (case np_getitem (item_factors st) (pos_item - 1) of
        Inl e \<Rightarrow> Inl e
      | Inr pos_item_embed \<Rightarrow>
     (case np_getitem (item_factors st) (neg_item - 1) of
        Inl e \<Rightarrow> Inl e
      | Inr neg_item_embed \<Rightarrow>
     (case compute_gradients user_embed pos_item_embed neg_item_embed l2_decay of
        (user_grad, pos_item_grad, neg_item_grad) \<Rightarrow>
     (case row_isub (user_factors st) (user - 1) (smul learning_rate user_grad) of
        Inl e \<Rightarrow> Inl e
      | Inr uf \<Rightarrow>
     (case row_isub (item_factors st) (pos_item - 1) (smul learning_rate pos_item_grad) of
        Inl e \<Rightarrow> Inl e
      | Inr itf \<Rightarrow>
     (case row_isub itf (neg_item - 1) (smul learning_rate neg_item_grad) of
        Inl e \<Rightarrow> Inl e
      | Inr itf' \<Rightarrow> Inr \<lparr>user_factors = uf, item_factors = itf'\<rparr>)))))))"

text \<open>
  The training loop:
  \<^verbatim>\<open>
  ratings_arr = ratings[['user', 'item']].values
  n_ratings = len(ratings_arr)
  loss_trace = []
  for epoch in range(epochs):
      for _ in range(len(ratings)):
          random_index = np.random.randint(n_ratings)
          user, pos_item = tuple(ratings_arr[random_index])
          neg_item = negative_sampling(user, user_neg_items)
          ... (the update above)
      if verbose:
          samples = ratings_arr[-1000:]
          loss = print_update(epoch, samples)
          loss_trace.append(loss)
  \<close>
  An exception leaves the loop; the model then returns the exception alone.
\<close>

record config =
  epochs :: nat
  learning_rate :: real
  l2_decay :: decay
  verbose :: bool

definition sgd_step ::
  "config \<Rightarrow> (int \<times> int) list \<Rightarrow> (int \<rightharpoonup> int list) \<Rightarrow> model_state \<times> gen \<Rightarrow>
   error + (model_state \<times> gen)" where
  "sgd_step cfg ratings_arr neg_items sg =
     (case sg of (st, g) \<Rightarrow>
     (case randint g (int (length ratings_arr)) of
        Inl e \<Rightarrow> Inl e
      | Inr (random_index, g1) \<Rightarrow>
     (case np_getitem ratings_arr random_index of
        Inl e \<Rightarrow> Inl e
      | Inr (user, pos_item) \<Rightarrow>
     (case negative_sampling g1 user neg_items of
        Inl e \<Rightarrow> Inl e
      | Inr (neg_item, g2) \<Rightarrow>
     (case sgd_update (learning_rate cfg) (l2_decay cfg) user pos_item neg_item st of
        Inl e \<Rightarrow> Inl e
      | Inr st' \<Rightarrow> Inr (st', g2))))))"

fun sgd_steps ::
  "nat \<Rightarrow> config \<Rightarrow> (int \<times> int) list \<Rightarrow> (int \<rightharpoonup> int list) \<Rightarrow> model_state \<times> gen \<Rightarrow>
   error + (model_state \<times> gen)" where
  "sgd_steps 0 cfg ratings_arr neg_items sg = Inr sg"
| "sgd_steps (Suc k) cfg ratings_arr neg_items sg =
     (case sgd_step cfg ratings_arr neg_items sg of
        Inl e \<Rightarrow> Inl e
      | Inr sg' \<Rightarrow> sgd_steps k cfg ratings_arr neg_items sg')"

text \<open>
  The diagnostic loss of an epoch:
  \<^verbatim>\<open>
  def print_update(epoch, samples):
      users = samples[:, 0]
      pos_items = samples[:, 1]
      neg_items = np.array([negative_sampling(user, user_neg_items) for user in users])
      user_embeds = user_factors[users - 1]
      pos_item_embeds = item_factors[pos_items - 1]
      neg_item_embeds = item_factors[neg_items - 1]
      pos_preds = np.sum(user_embeds * pos_item_embeds, axis=1)
      neg_preds = np.sum(user_embeds * neg_item_embeds, axis=1)
      preds = pos_preds - neg_preds
      loss = -np.log(sigmoid(preds)).mean()
      print(...)
      return loss
  \<close>
  With no sample at all, \<^verbatim>\<open>np.array([])\<close> is an array of floats and numpy refuses it
  as an index (IndexError). The printed line is not modelled.
\<close>

fun sample_negatives ::
  "gen \<Rightarrow> int list \<Rightarrow> (int \<rightharpoonup> int list) \<Rightarrow> error + (int list \<times> gen)" where
  "sample_negatives g [] neg_items = Inr ([], g)"
| "sample_negatives g (user # users) neg_items =
     (case negative_sampling g user neg_items of
        Inl e \<Rightarrow> Inl e
      | Inr (neg_item, g1) \<Rightarrow>
     (case sample_negatives g1 users neg_items of
        Inl e \<Rightarrow> Inl e
      | Inr (rest, g2) \<Rightarrow> Inr (neg_item # rest, g2)))"

definition mean_loss :: "real list \<Rightarrow> real" where
  \<comment> \<open>\<^verbatim>\<open>-np.log(sigmoid(preds)).mean()\<close> on a non-empty array.\<close>
  "mean_loss preds = - (sum_list (map (\<lambda>x. ln (sigmoid x)) preds) / real (length preds))"

definition print_update ::
  "nat \<Rightarrow> (int \<times> int) list \<Rightarrow> (int \<rightharpoonup> int list) \<Rightarrow> model_state \<Rightarrow> gen \<Rightarrow>
   error + (real \<times> gen)" where
  "print_update epoch samples neg_items st g =
     (let users = map fst samples; pos_items = map snd samples in
     (case sample_negatives g users neg_items of
        Inl e \<Rightarrow> Inl e
      | Inr (negs, g') \<Rightarrow>
     (case np_take (user_factors st) (map (\<lambda>u. u - 1) users) of
        Inl e \<Rightarrow> Inl e
      | Inr user_embeds \<Rightarrow>
     (case np_take (item_factors st) (map (\<lambda>i. i - 1) pos_items) of
        Inl e \<Rightarrow> Inl e
      | Inr pos_item_embeds \<Rightarrow>
     (if negs = [] then Inl IndexError
      else
     (case np_take (item_factors st) (map (\<lambda>i. i - 1) negs) of
        Inl e \<Rightarrow> Inl e
      | Inr neg_item_embeds \<Rightarrow>
     (let pos_preds = map2 dot user_embeds pos_item_embeds;
          neg_preds = map2 dot user_embeds neg_item_embeds;
          preds = map2 (-) pos_preds neg_preds
      in Inr (mean_loss preds, g'))))))))"

definition last_rows :: "nat \<Rightarrow> 'a list \<Rightarrow> 'a list" where
  \<comment> \<open>\<^verbatim>\<open>a[-k:]\<close> for \<open>k > 0\<close>: the last \<open>k\<close> rows, all of them when there are fewer.\<close>
  "last_rows k a = drop (length a - k) a"

definition train_epoch ::
  "config \<Rightarrow> (int \<times> int) list \<Rightarrow> (int \<rightharpoonup> int list) \<Rightarrow> nat \<Rightarrow>
   (model_state \<times> real list) \<times> gen \<Rightarrow> error + ((model_state \<times> real list) \<times> gen)" where
  "train_epoch cfg ratings_arr neg_items epoch slg =
     (case slg of ((st, loss_trace), g) \<Rightarrow>
     (case sgd_steps (length ratings_arr) cfg ratings_arr neg_items (st, g) of
        Inl e \<Rightarrow> Inl e
      | Inr (st', g') \<Rightarrow>
          if verbose cfg then
            (case print_update epoch (last_rows 1000 ratings_arr) neg_items st' g' of
               Inl e \<Rightarrow> Inl e
             | Inr (loss, g'') \<Rightarrow> Inr ((st', loss_trace @ [loss]), g''))
          else Inr ((st', loss_trace), g')))"

fun train_epochs ::
  "nat \<Rightarrow> nat \<Rightarrow> config \<Rightarrow> (int \<times> int) list \<Rightarrow> (int \<rightharpoonup> int list) \<Rightarrow>
   (model_state \<times> real list) \<times> gen \<Rightarrow> error + ((model_state \<times> real list) \<times> gen)" where
  \<comment> \<open>\<open>train_epochs k epoch\<close>: the \<open>k\<close> epochs that remain, starting at number \<open>epoch\<close>.\<close>
  "train_epochs 0 epoch cfg ratings_arr neg_items slg = Inr slg"
| "train_epochs (Suc k) epoch cfg ratings_arr neg_items slg =
     (case train_epoch cfg ratings_arr neg_items epoch slg of
        Inl e \<Rightarrow> Inl e
      | Inr slg' \<Rightarrow> train_epochs k (Suc epoch) cfg ratings_arr neg_items slg')"

definition run_training ::
  "config \<Rightarrow> (int \<times> int) list \<Rightarrow> (int \<rightharpoonup> int list) \<Rightarrow> model_state \<Rightarrow> gen \<Rightarrow>
   error + ((model_state \<times> real list) \<times> gen)" where
  \<comment> \<open>The whole loop from an empty loss trace: the final factors and the loss trace,
      with the generator state left behind.\<close>
  "run_training cfg ratings_arr neg_items st g =
     train_epochs (epochs cfg) 0 cfg ratings_arr neg_items ((st, []), g)"

definition train ::
  "config \<Rightarrow> (int \<times> int) list \<Rightarrow> (int \<rightharpoonup> int list) \<Rightarrow> model_state \<Rightarrow> gen \<Rightarrow>
   error + (model_state \<times> real list)" where
  \<comment> \<open>What a training run leaves to its caller: the final factors and the loss trace,
      or the exception.\<close>
  "train cfg ratings_arr neg_items st g =
     (case run_training cfg ratings_arr neg_items st g of
        Inl e \<Rightarrow> Inl e
      | Inr (result, g') \<Rightarrow> Inr result)"

section \<open>Scorer and RecommendationRanker\<close>

text \<open>
  \<^verbatim>\<open>
  def get_prediction(user, items=None, remove_known_pos=True):
      if items is None:
          if remove_known_pos:
              items = user_neg_items[user]
          else:
              items = np.array(data.items)
      if type(items) == np.int64:
          items = np.array([items])
      user_embed = user_factors[user - 1].reshape(1, -1)
      item_embeds = item_factors[items - 1].reshape(len(items), -1)
      preds = np.sum(user_embed * item_embeds, axis=1)
      sorting = np.argsort(preds)[::-1]
      preds = {item: {'pred': pred} for item, pred in
               zip(items[sorting], preds[sorting])}
      return preds
  \<close>
  The optional argument is an array, a single \<^verbatim>\<open>np.int64\<close> or absent. The
  one-entry dictionary \<^verbatim>\<open>{'pred': pred}\<close> is represented by its value. A
  Python dictionary keeps its keys in insertion order, so the result is an
  association list.
\<close>

datatype items_arg = ItemArray "int list" | ItemScalar int

definition reshape_rows :: "nat \<Rightarrow> 'a list \<Rightarrow> error + 'a list" where
  \<comment> \<open>\<^verbatim>\<open>a.reshape(k, -1)\<close> on an array that has \<open>k\<close> rows: numpy cannot infer the
      free dimension when \<open>k = 0\<close> and raises ValueError (cannot reshape array of size
      0); otherwise the shape is unchanged.\<close>
  "reshape_rows k a = (if k = 0 then Inl ValueError else Inr a)"

definition broadcast_mul :: "vec \<Rightarrow> matrix \<Rightarrow> matrix" where
  \<comment> \<open>\<^verbatim>\<open>user_embed * item_embeds\<close>: the single row of \<open>user_embed\<close> is multiplied
      elementwise with every row of \<open>item_embeds\<close>.\<close>
  "broadcast_mul user_embed item_embeds = map (\<lambda>row. map2 (*) user_embed row) item_embeds"

definition sum_axis1 :: "matrix \<Rightarrow> vec" where
  \<comment> \<open>\<^verbatim>\<open>np.sum(M, axis=1)\<close>: one sum per row.\<close>
  "sum_axis1 M = map sum_list M"

definition np_argsort :: "real list \<Rightarrow> nat list" where
  \<comment> \<open>\<^verbatim>\<open>np.argsort(preds)\<close>: the positions in ascending order of their values.
      numpy's default sort leaves the order of equal values open; here equal values
      keep their positions' order.\<close>
  "np_argsort preds = sort_key (\<lambda>i. preds ! i) [0..<length preds]"

fun dict_set :: "'k \<Rightarrow> 'v \<Rightarrow> ('k \<times> 'v) list \<Rightarrow> ('k \<times> 'v) list" where
  \<comment> \<open>\<^verbatim>\<open>d[k] = v\<close>: a known key keeps its place, a new key goes to the end.\<close>
  "dict_set k v [] = [(k, v)]"
| "dict_set k v (p # d) = (if fst p = k then (k, v) # d else p # dict_set k v d)"

definition dict_of_pairs :: "('k \<times> 'v) list \<Rightarrow> ('k \<times> 'v) list" where
  \<comment> \<open>A dictionary comprehension, \<^verbatim>\<open>dict(pairs)\<close>.\<close>
  "dict_of_pairs kvs = foldl (\<lambda>d kv. dict_set (fst kv) (snd kv) d) [] kvs"

definition score_items :: "model_state \<Rightarrow> int \<Rightarrow> int list \<Rightarrow> error + real list" where
  \<comment> \<open>The scoring lines of \<open>get_prediction\<close>: from \<^verbatim>\<open>user_embed = ...\<close> to
      \<^verbatim>\<open>preds = np.sum(...)\<close>.\<close>
  "score_items st user items =
     (case np_getitem (user_factors st) (user - 1) of
        Inl e \<Rightarrow> Inl e
      | Inr user_embed \<Rightarrow>
     (case np_take (item_factors st) (map (\<lambda>i. i - 1) items) of
        Inl e \<Rightarrow> Inl e
      | Inr rows \<Rightarrow>
     (case reshape_rows (length items) rows of
        Inl e \<Rightarrow> Inl e
      | Inr item_embeds \<Rightarrow> Inr (sum_axis1 (broadcast_mul user_embed item_embeds)))))"

definition get_prediction ::
  "int list \<Rightarrow> (int \<rightharpoonup> int list) \<Rightarrow> model_state \<Rightarrow> int \<Rightarrow> items_arg option \<Rightarrow> bool \<Rightarrow>
   error + (int \<times> real) list" where
  "get_prediction catalog neg_items st user items remove_known_pos =
     (case (case items of
              None \<Rightarrow>
                if remove_known_pos
                then (case neg_items user of None \<Rightarrow> Inl KeyError | Some a \<Rightarrow> Inr a)
                else Inr catalog
            | Some (ItemArray a) \<Rightarrow> Inr a
            | Some (ItemScalar i) \<Rightarrow> Inr [i]) of
        Inl e \<Rightarrow> Inl e
      | Inr items' \<Rightarrow>
     (case score_items st user items' of
        Inl e \<Rightarrow> Inl e
      | Inr preds \<Rightarrow>
          let sorting = rev (np_argsort preds)
          in Inr (dict_of_pairs (zip (map ((!) items') sorting) (map ((!) preds) sorting)))))"

text \<open>
  \<^verbatim>\<open>
  def get_recommendations(user, N, remove_known_pos=False):
      predictions = get_prediction(user, remove_known_pos=remove_known_pos)
      recommendations = []
      for item, pred in predictions.items():
          add_item = (item, pred)
          recommendations.append(add_item)
          if len(recommendations) == N:
              break
      return recommendations
  \<close>
\<close>

fun collect_recommendations :: "int \<Rightarrow> 'a list \<Rightarrow> 'a list \<Rightarrow> 'a list" where
  "collect_recommendations N recommendations [] = recommendations"
| "collect_recommendations N recommendations (p # predictions) =
     (if int (length (recommendations @ [p])) = N then recommendations @ [p]
      else collect_recommendations N (recommendations @ [p]) predictions)"

definition get_recommendations ::
  "int list \<Rightarrow> (int \<rightharpoonup> int list) \<Rightarrow> model_state \<Rightarrow> int \<Rightarrow> int \<Rightarrow> bool \<Rightarrow>
   error + (int \<times> real) list" where
  "get_recommendations catalog neg_items st user N remove_known_pos =
     (case get_prediction catalog neg_items st user None remove_known_pos of
        Inl e \<Rightarrow> Inl e
      | Inr predictions \<Rightarrow> Inr (collect_recommendations N [] predictions))"

definition dot_product :: "vec \<Rightarrow> vec \<Rightarrow> real" where
  \<comment> \<open>The specification's scalar score, written from its words: the dot product
      \<open>\<Sum>f. w_f \<cdot> h_f\<close> over the \<open>d\<close> coordinates of the two factor vectors.\<close>
  "dot_product w h = (\<Sum>f < length w. w ! f * h ! f)"

definition item_score :: "model_state \<Rightarrow> int \<Rightarrow> int \<Rightarrow> real" where
  \<comment> \<open>The entry of \<open>preds\<close> that the batch computation of \<open>score_items\<close> holds for
      one item: the row sum of the elementwise product.\<close>
  "item_score st user i =
     sum_list (map2 (*) (projr (np_getitem (user_factors st) (user - 1)))
                        (projr (np_getitem (item_factors st) (i - 1))))"

definition nonincreasing :: "real list \<Rightarrow> bool" where
  "nonincreasing xs = sorted_wrt (\<lambda>a b. b \<le> a) xs"

definition single_valued_pairs :: "('k \<times> 'v) list \<Rightarrow> bool" where
  \<comment> \<open>Equal keys carry equal values.\<close>
  "single_valued_pairs ps = (\<forall>p \<in> set ps. \<forall>q \<in> set ps. fst p = fst q \<longrightarrow> snd p = snd q)"

section \<open>Evaluator\<close>

text \<open>
  \<^verbatim>\<open>
  users = relevant_items.keys()
  prec_at_N = dict.fromkeys(data.users)
  for user in users:
      recommendations = get_recommendations(user, N, remove_known_pos=True)
      recommendations = [val[0] for val in recommendations]
      hits = np.intersect1d(recommendations, relevant_items[user])
      prec_at_N[user] = len(hits)/N
  np.mean([val for val in prec_at_N.values() if val is not None])
  \<close>
  \<open>relevant_items\<close> comes from the evaluation helper of the package; it is a
  dictionary from users to item lists, here an association list. The mean of an
  empty list is numpy's \<open>nan\<close>, here \<open>None\<close>.
\<close>

definition eval_user ::
  "int list \<Rightarrow> (int \<rightharpoonup> int list) \<Rightarrow> model_state \<Rightarrow> (int \<times> int list) list \<Rightarrow> int \<Rightarrow>
   (int \<times> real option) list \<Rightarrow> int \<Rightarrow> error + (int \<times> real option) list" where
  "eval_user catalog neg_items st relevant_items N prec_at_N user =
     (case get_recommendations catalog neg_items st user N True of
        Inl e \<Rightarrow> Inl e
      | Inr recs \<Rightarrow>
     (let recommendations = map fst recs in
     (case map_of relevant_items user of
        None \<Rightarrow> Inl KeyError
      | Some relevant \<Rightarrow>
     (let hits = intersect1d recommendations relevant in
      if N = 0 then Inl ZeroDivisionError
      else Inr (dict_set user (Some (real (length hits) / real_of_int N)) prec_at_N)))))"

fun eval_users ::
  "int list \<Rightarrow> (int \<rightharpoonup> int list) \<Rightarrow> model_state \<Rightarrow> (int \<times> int list) list \<Rightarrow> int \<Rightarrow>
   (int \<times> real option) list \<Rightarrow> int list \<Rightarrow> error + (int \<times> real option) list" where
  "eval_users catalog neg_items st relevant_items N prec_at_N [] = Inr prec_at_N"
| "eval_users catalog neg_items st relevant_items N prec_at_N (user # users) =
     (case eval_user catalog neg_items st relevant_items N prec_at_N user of
        Inl e \<Rightarrow> Inl e
      | Inr prec_at_N' \<Rightarrow> eval_users catalog neg_items st relevant_items N prec_at_N' users)"

definition not_none_values :: "('k \<times> 'v option) list \<Rightarrow> 'v list" where
  \<comment> \<open>\<^verbatim>\<open>[val for val in d.values() if val is not None]\<close>\<close>
  "not_none_values d = concat (map (\<lambda>kv. case snd kv of None \<Rightarrow> [] | Some v \<Rightarrow> [v]) d)"

definition np_mean :: "real list \<Rightarrow> real option" where
  "np_mean xs = (if xs = [] then None else Some (sum_list xs / real (length xs)))"

definition evaluate ::
  "int list \<Rightarrow> int list \<Rightarrow> (int \<rightharpoonup> int list) \<Rightarrow> model_state \<Rightarrow> (int \<times> int list) list \<Rightarrow> int \<Rightarrow>
   error + ((int \<times> real option) list \<times> real option)" where
  \<comment> \<open>The per-user dictionary \<open>prec_at_N\<close> and the mean of the last cell.\<close>
  "evaluate catalog users neg_items st relevant_items N =
     (case eval_users catalog neg_items st relevant_items N
             (dict_of_pairs (map (\<lambda>u. (u, None)) users)) (map fst relevant_items) of
        Inl e \<Rightarrow> Inl e
      | Inr prec_at_N \<Rightarrow> Inr (prec_at_N, np_mean (not_none_values prec_at_N)))"

definition precision_at_N :: "int list \<Rightarrow> int list \<Rightarrow> int \<Rightarrow> real" where
  \<comment> \<open>The specification's Precision@N, written from its words:
      \<open>|recommended \<inter> relevant| / N\<close>.\<close>
  "precision_at_N recommended relevant N =
     real (card (set recommended \<inter> set relevant)) / real_of_int N"

definition user_precision ::
  "int list \<Rightarrow> (int \<rightharpoonup> int list) \<Rightarrow> model_state \<Rightarrow> int \<Rightarrow> int \<times> int list \<Rightarrow> real" where
  \<comment> \<open>Precision@N of the items recommended to one user of \<open>relevant_items\<close>,
      against that user's relevant items.\<close>
  "user_precision catalog neg_items st N ur =
     precision_at_N
       (map fst (projr (get_recommendations catalog neg_items st (fst ur) N True))) (snd ur) N"

section \<open>Relating two runs\<close>

text \<open>
  Two results of an operation that threads the generator are the same up to \<open>k\<close>
  further draws when both raise the same exception, or both return the same value
  and leave generators that agree on their next \<open>k\<close> values.
\<close>

definition same_upto :: "nat \<Rightarrow> error + ('a \<times> gen) \<Rightarrow> error + ('a \<times> gen) \<Rightarrow> bool" where
  "same_upto k r r' =
     (case r of
        Inl e \<Rightarrow> r' = Inl e
      | Inr (x, g) \<Rightarrow>
          (case r' of Inl e' \<Rightarrow> False | Inr (x', g') \<Rightarrow> x = x' \<and> stake k g = stake k g'))"

definition draws_per_epoch :: "config \<Rightarrow> (int \<times> int) list \<Rightarrow> nat" where
  \<comment> \<open>Two draws per step (the row, the negative item) and one per sample of the
      diagnostic loss.\<close>
  "draws_per_epoch cfg ratings_arr =
     2 * length ratings_arr +
     (if verbose cfg then length (last_rows 1000 ratings_arr) else 0)"

section \<open>Concrete inputs\<close>

definition no_decay :: decay where
  "no_decay = \<lparr>user_decay = 0, pos_decay = 0, neg_decay = 0\<rparr>"

definition one_epoch :: config where
  "one_epoch = \<lparr>epochs = 1, learning_rate = 0.1, l2_decay = no_decay, verbose = False\<rparr>"

definition tenth_store :: "nat \<Rightarrow> nat \<Rightarrow> model_state" where
  \<comment> \<open>\<open>m\<close> users and \<open>n\<close> items of embedding dimension 1, every factor 0.1.\<close>
  "tenth_store m n = \<lparr>user_factors = replicate m [0.1], item_factors = replicate n [0.1]\<rparr>"

section \<open>Properties of the index and the sampler\<close>

lemma set_unique: "set (unique xs) = set xs"
  by (simp add: unique_def)

lemma distinct_unique: "distinct (unique xs)"
  by (simp add: unique_def)

lemma set_setdiff1d: "set (setdiff1d a b) = set a - set b"
  by (auto simp: setdiff1d_def set_unique)

lemma distinct_setdiff1d: "distinct (setdiff1d a b)"
  by (simp add: setdiff1d_def distinct_unique)

lemma set_intersect1d: "set (intersect1d a b) = set a \<inter> set b"
  by (auto simp: intersect1d_def set_unique)

lemma distinct_intersect1d: "distinct (intersect1d a b)"
  by (simp add: intersect1d_def distinct_unique)

lemma length_intersect1d: "length (intersect1d a b) = card (set a \<inter> set b)"
  using distinct_card [OF distinct_intersect1d, of a b]
  by (simp add: set_intersect1d)

lemma index_user_pos_other:
  "u \<noteq> user \<Longrightarrow> user_pos_items (index_user items ratings fi u) user = user_pos_items fi user"
  by (simp add: index_user_def Let_def)

lemma index_user_neg_other:
  "u \<noteq> user \<Longrightarrow> user_neg_items (index_user items ratings fi u) user = user_neg_items fi user"
  by (simp add: index_user_def Let_def)

lemma index_user_pos_same:
  "user_pos_items (index_user items ratings fi user) user =
     Some (if user \<in> set (map fst ratings) then get_group ratings user else [])"
  by (simp add: index_user_def Let_def)

lemma index_user_neg_same:
  "user_neg_items (index_user items ratings fi user) user =
     Some (setdiff1d items (if user \<in> set (map fst ratings) then get_group ratings user else []))"
  by (simp add: index_user_def Let_def)

lemma foldl_index_user_pos:
  "user_pos_items (foldl (index_user items ratings) fi users) user =
     (if user \<in> set users
      then Some (if user \<in> set (map fst ratings) then get_group ratings user else [])
      else user_pos_items fi user)"
proof (induction users arbitrary: fi)
  case Nil
  show ?case by simp
next
  case (Cons u us)
  show ?case
  proof (cases "u = user")
    case True
    then show ?thesis
      using Cons.IH [of "index_user items ratings fi u"]
      by (simp add: index_user_pos_same)
  next
    case False
    then show ?thesis
      using Cons.IH [of "index_user items ratings fi u"]
      by (auto simp: index_user_pos_other)
  qed
qed

lemma foldl_index_user_neg:
  "user_neg_items (foldl (index_user items ratings) fi users) user =
     (if user \<in> set users
      then Some (setdiff1d items
                   (if user \<in> set (map fst ratings) then get_group ratings user else []))
      else user_neg_items fi user)"
proof (induction users arbitrary: fi)
  case Nil
  show ?case by simp
next
  case (Cons u us)
  show ?case
  proof (cases "u = user")
    case True
    then show ?thesis
      using Cons.IH [of "index_user items ratings fi u"]
      by (simp add: index_user_neg_same)
  next
    case False
    then show ?thesis
      using Cons.IH [of "index_user items ratings fi u"]
      by (auto simp: index_user_neg_other)
  qed
qed

lemma build_index_pos:
  "user \<in> set users \<Longrightarrow>
   user_pos_items (build_index users items ratings) user =
     Some (if user \<in> set (map fst ratings) then get_group ratings user else [])"
  by (simp add: build_index_def foldl_index_user_pos)

lemma build_index_neg:
  "user \<in> set users \<Longrightarrow>
   user_neg_items (build_index users items ratings) user =
     Some (setdiff1d items
             (if user \<in> set (map fst ratings) then get_group ratings user else []))"
  by (simp add: build_index_def foldl_index_user_neg)

lemma set_get_group: "set (get_group ratings user) \<subseteq> snd ` set ratings"
  by (auto simp: get_group_def)

lemma get_group_no_row: "user \<notin> set (map fst ratings) \<Longrightarrow> get_group ratings user = []"
  by (induction ratings) (auto simp: get_group_def)

lemma build_index_empty_pool:
  assumes "user \<in> set users"
  shows "user_neg_items (build_index users items ratings) user = Some [] \<longleftrightarrow>
         set items \<subseteq> set (get_group ratings user)"
proof -
  have "setdiff1d items (get_group ratings user) = [] \<longleftrightarrow>
        set items \<subseteq> set (get_group ratings user)"
    using set_setdiff1d [of items "get_group ratings user"]
    by (metis Diff_eq_empty_iff set_empty)
  then show ?thesis
    using build_index_neg [OF assms, of items ratings] get_group_no_row [of user ratings]
    by (cases "user \<in> set (map fst ratings)") simp_all
qed

text \<open>
  Claim C3. For a user whose negative candidate pool is empty, \<open>negative_sampling\<close>
  fails with the ValueError of the empty draw (the specification's
  \<open>EmptyNegativePoolError\<close>); for a user whose pool is not empty it returns an
  element of that pool, whatever the generator delivers.
\<close>

theorem negative_sampling_pool:
  assumes "neg_items user = Some pool"
  shows "(pool = [] \<longrightarrow> negative_sampling g user neg_items = Inl ValueError) \<and>
         (pool \<noteq> [] \<longrightarrow>
            (\<exists>item g'. negative_sampling g user neg_items = Inr (item, g') \<and> item \<in> set pool))"
  using assms by (simp add: negative_sampling_def random_choice_def)

theorem negative_sampling_pool_witness:
  "negative_sampling (sconst 0) 1 [1 \<mapsto> []] = Inl ValueError \<and>
   (\<exists>item g'. negative_sampling (sconst 0) 2 [2 \<mapsto> [5, 7]] = Inr (item, g') \<and>
      item \<in> set [5, 7])"
  using negative_sampling_pool [of "[1 \<mapsto> []]" 1 "[]" "sconst 0"]
        negative_sampling_pool [of "[2 \<mapsto> [5, 7]]" 2 "[5, 7]" "sconst 0"]
  by simp

text \<open>
  Claim C7. After the index is built, every user of the user catalog has an entry in
  both dictionaries; the positive and the negative items are disjoint; together they
  are the item catalog (the training rows mention catalog items only); and a user
  with no training row has no positive item and the whole catalog as negatives.
\<close>

theorem build_index_partition:
  assumes "user \<in> set users" and "snd ` set ratings \<subseteq> set items"
  shows "\<exists>pos_items neg_items.
           user_pos_items (build_index users items ratings) user = Some pos_items \<and>
           user_neg_items (build_index users items ratings) user = Some neg_items \<and>
           set pos_items \<inter> set neg_items = {} \<and>
           set pos_items \<union> set neg_items = set items \<and>
           (user \<notin> fst ` set ratings \<longrightarrow> pos_items = [] \<and> set neg_items = set items)"
proof -
  let ?pos = "if user \<in> set (map fst ratings) then get_group ratings user else []"
  have sub: "set ?pos \<subseteq> set items"
    using set_get_group [of ratings user] assms(2) by auto
  have "set ?pos \<inter> set (setdiff1d items ?pos) = {}"
    by (auto simp: set_setdiff1d)
  moreover have "set ?pos \<union> set (setdiff1d items ?pos) = set items"
    using sub by (auto simp: set_setdiff1d)
  moreover have "user \<notin> fst ` set ratings \<longrightarrow> ?pos = [] \<and> set (setdiff1d items ?pos) = set items"
    by (auto simp: set_setdiff1d)
  ultimately show ?thesis
    using build_index_pos [OF assms(1), of items ratings]
          build_index_neg [OF assms(1), of items ratings]
    by simp
qed

theorem build_index_partition_witness:
  "(2::int) \<in> set [1, 2] \<and> snd ` set [(1::int, 3::int)] \<subseteq> set [3, 4] \<and>
   (\<exists>pos_items neg_items.
      user_pos_items (build_index [1, 2] [3, 4] [(1, 3)]) 2 = Some pos_items \<and>
      user_neg_items (build_index [1, 2] [3, 4] [(1, 3)]) 2 = Some neg_items \<and>
      set pos_items \<inter> set neg_items = {} \<and>
      set pos_items \<union> set neg_items = set [3, 4] \<and>
      (2 \<notin> fst ` set [(1::int, 3::int)] \<longrightarrow> pos_items = [] \<and> set neg_items = set [3, 4]))"
proof -
  have a: "(2::int) \<in> set [1, 2]" by simp
  have b: "snd ` set [(1::int, 3::int)] \<subseteq> set [3, 4]" by simp
  show ?thesis
    using a b build_index_partition [OF a b] by blast
qed

section \<open>One SGD step\<close>

lemma sigmoid_zero: "sigmoid 0 = 1 / 2"
  by (simp add: sigmoid_def)

lemma gradients_scenario_A:
  "compute_gradients [0.1] [0.1] [0.1] \<lparr>user_decay = 0, pos_decay = 0, neg_decay = 0\<rparr> =
     ([0], [- 0.05], [0.05])"
  by (simp add: compute_gradients_def Let_def dot_def vadd_def vsub_def smul_def sigmoid_zero)

text \<open>
  Claim C1. Two users and two items with embedding dimension 1, every factor 0.1,
  learning rate 0.1 and no regularisation: the update for the triple (user 1,
  positive item 1, negative item 2) leaves the user factors as they are and moves
  the factor of item 1 to 0.105 and the factor of item 2 to 0.095. The values are
  exact over the reals.
\<close>

theorem sgd_update_scenario_A:
  "sgd_update 0.1 \<lparr>user_decay = 0, pos_decay = 0, neg_decay = 0\<rparr> 1 1 2
     \<lparr>user_factors = [[0.1], [0.1]], item_factors = [[0.1], [0.1]]\<rparr> =
   Inr \<lparr>user_factors = [[0.1], [0.1]], item_factors = [[0.105], [0.095]]\<rparr>"
  by (simp add: sgd_update_def gradients_scenario_A np_getitem_def np_wrap_def
        row_isub_def vsub_def smul_def)

section \<open>Sampling exhaustion during training\<close>

lemma np_wrap_error: "np_wrap n i = Inl e \<Longrightarrow> e = IndexError"
  by (auto simp: np_wrap_def split: if_splits)

lemma np_wrap_less: "np_wrap n i = Inr j \<Longrightarrow> j < n"
  by (auto simp: np_wrap_def split: if_splits)

lemma np_getitem_error: "np_getitem a i = Inl e \<Longrightarrow> e = IndexError"
  by (auto simp: np_getitem_def split: sum.splits dest: np_wrap_error)

lemma np_getitem_mem: "np_getitem a i = Inr x \<Longrightarrow> x \<in> set a"
  by (auto simp: np_getitem_def split: sum.splits dest: np_wrap_less)

lemma np_take_error: "np_take a idx = Inl e \<Longrightarrow> e = IndexError"
  by (induction idx) (auto split: sum.splits dest: np_getitem_error)

lemma row_isub_error: "row_isub M i v = Inl e \<Longrightarrow> e = IndexError"
  by (auto simp: row_isub_def split: sum.splits dest: np_wrap_error)

lemma sgd_update_error: "sgd_update lr dc user pos_item neg_item st = Inl e \<Longrightarrow> e = IndexError"
  by (auto simp: sgd_update_def split: sum.splits prod.splits
      dest: np_getitem_error row_isub_error)

lemma negative_sampling_nonempty:
  "neg_items user = Some pool \<Longrightarrow> pool \<noteq> [] \<Longrightarrow>
   negative_sampling g user neg_items \<noteq> Inl ValueError"
  by (simp add: negative_sampling_def random_choice_def)

lemma sgd_step_no_exhaustion:
  assumes "\<forall>r \<in> set ratings_arr. \<exists>pool. neg_items (fst r) = Some pool \<and> pool \<noteq> []"
    and "ratings_arr \<noteq> []"
  shows "sgd_step cfg ratings_arr neg_items sg \<noteq> Inl ValueError"
proof
  assume err: "sgd_step cfg ratings_arr neg_items sg = Inl ValueError"
  obtain st g where sg: "sg = (st, g)" by (cases sg)
  from assms(2) obtain i g1 where ri: "randint g (int (length ratings_arr)) = Inr (i, g1)"
    by (auto simp: randint_def)
  show False
  proof (cases "np_getitem ratings_arr i")
    case (Inl e)
    with err sg ri show False
      by (auto simp: sgd_step_def dest: np_getitem_error)
  next
    case (Inr r)
    obtain user pos_item where r: "r = (user, pos_item)" by (cases r)
    from Inr have "r \<in> set ratings_arr" by (rule np_getitem_mem)
    with assms(1) r obtain pool where pool: "neg_items user = Some pool" "pool \<noteq> []"
      by fastforce
    from pool have ns: "negative_sampling g1 user neg_items \<noteq> Inl ValueError"
      by (rule negative_sampling_nonempty)
    from err sg ri Inr r ns show False
      by (auto simp: sgd_step_def split: sum.splits prod.splits dest: sgd_update_error)
  qed
qed

lemma sgd_steps_no_exhaustion:
  assumes "\<forall>r \<in> set ratings_arr. \<exists>pool. neg_items (fst r) = Some pool \<and> pool \<noteq> []"
    and "ratings_arr \<noteq> []"
  shows "sgd_steps k cfg ratings_arr neg_items sg \<noteq> Inl ValueError"
proof (induction k arbitrary: sg)
  case 0
  show ?case by simp
next
  case (Suc k)
  show ?case
    using sgd_step_no_exhaustion [OF assms, of cfg sg] Suc.IH
    by (auto split: sum.splits)
qed

lemma sample_negatives_no_exhaustion:
  assumes "\<forall>u \<in> set users. \<exists>pool. neg_items u = Some pool \<and> pool \<noteq> []"
  shows "sample_negatives g users neg_items \<noteq> Inl ValueError"
  using assms
proof (induction users arbitrary: g)
  case Nil
  show ?case by simp
next
  case (Cons u us)
  from Cons.prems obtain pool where pool: "neg_items u = Some pool" "pool \<noteq> []"
    by auto
  have ns: "negative_sampling g u neg_items \<noteq> Inl ValueError"
    using pool by (rule negative_sampling_nonempty)
  have "\<And>g1. sample_negatives g1 us neg_items \<noteq> Inl ValueError"
    using Cons.IH Cons.prems by simp
  with ns show ?case
    by (auto split: sum.splits prod.splits)
qed

lemma print_update_no_exhaustion:
  assumes "\<forall>r \<in> set samples. \<exists>pool. neg_items (fst r) = Some pool \<and> pool \<noteq> []"
  shows "print_update epoch samples neg_items st g \<noteq> Inl ValueError"
proof -
  have "\<forall>u \<in> set (map fst samples). \<exists>pool. neg_items u = Some pool \<and> pool \<noteq> []"
    using assms by auto
  then have "sample_negatives g (map fst samples) neg_items \<noteq> Inl ValueError"
    by (rule sample_negatives_no_exhaustion)
  then show ?thesis
    by (auto simp: print_update_def Let_def split: sum.splits prod.splits if_splits
        dest: np_take_error)
qed

lemma set_last_rows: "set (last_rows k a) \<subseteq> set a"
  by (auto simp: last_rows_def dest: in_set_dropD)

lemma train_epoch_no_exhaustion:
  assumes "\<forall>r \<in> set ratings_arr. \<exists>pool. neg_items (fst r) = Some pool \<and> pool \<noteq> []"
  shows "train_epoch cfg ratings_arr neg_items epoch sgl \<noteq> Inl ValueError"
proof -
  obtain st g tr where sgl: "sgl = ((st, tr), g)" by (cases sgl) auto
  have steps: "sgd_steps (length ratings_arr) cfg ratings_arr neg_items (st, g) \<noteq> Inl ValueError"
  proof (cases "ratings_arr = []")
    case True
    then show ?thesis by simp
  next
    case False
    with assms show ?thesis by (rule sgd_steps_no_exhaustion)
  qed
  have "\<forall>r \<in> set (last_rows 1000 ratings_arr). \<exists>pool. neg_items (fst r) = Some pool \<and> pool \<noteq> []"
    using assms set_last_rows [of 1000 ratings_arr] by blast
  then have "\<And>st' g'. print_update epoch (last_rows 1000 ratings_arr) neg_items st' g' \<noteq> Inl ValueError"
    by (rule print_update_no_exhaustion)
  with steps show ?thesis
    by (auto simp: train_epoch_def sgl split: sum.splits prod.splits if_splits)
qed

lemma train_epochs_no_exhaustion:
  assumes "\<forall>r \<in> set ratings_arr. \<exists>pool. neg_items (fst r) = Some pool \<and> pool \<noteq> []"
  shows "train_epochs k epoch cfg ratings_arr neg_items sgl \<noteq> Inl ValueError"
proof (induction k arbitrary: epoch sgl)
  case 0
  show ?case by simp
next
  case (Suc k)
  show ?case
    using train_epoch_no_exhaustion [OF assms, of cfg epoch sgl] Suc.IH
    by (auto split: sum.splits)
qed

text \<open>
  Claim C4, as the code has it. The row of a step is drawn from the whole training
  table, whatever the negative pools are. When every user with a row in the table
  has a non-empty negative pool, no step of any epoch (and no diagnostic loss)
  fails with the ValueError of an empty draw.
\<close>

theorem train_no_exhaustion:
  assumes "\<forall>r \<in> set ratings_arr. \<exists>pool. neg_items (fst r) = Some pool \<and> pool \<noteq> []"
  shows "train cfg ratings_arr neg_items st g \<noteq> Inl ValueError"
  using train_epochs_no_exhaustion [OF assms, of "epochs cfg" 0 cfg "((st, []), g)"]
  by (auto simp: train_def run_training_def split: sum.splits)

theorem train_no_exhaustion_witness:
  "[1 \<mapsto> [2::int]] (fst (1::int, 1::int)) = Some [2] \<and> [2] \<noteq> ([]::int list) \<and>
   train one_epoch [(1, 1)] [1 \<mapsto> [2]] (tenth_store 1 2) (sconst 0) \<noteq> Inl ValueError"
proof -
  have h: "\<forall>r \<in> set [(1::int, 1::int)]. \<exists>pool. [1 \<mapsto> [2::int]] (fst r) = Some pool \<and> pool \<noteq> []"
    by simp
  have "train one_epoch [(1, 1)] [1 \<mapsto> [2]] (tenth_store 1 2) (sconst 0) \<noteq> Inl ValueError"
    by (rule train_no_exhaustion [OF h])
  then show ?thesis by simp
qed

text \<open>
  One user who has rated the only item of the catalog: the negative pool is empty,
  the first step draws the user's row, and the draw of a negative item raises.
\<close>

theorem train_exhaustion_counterexample:
  "train one_epoch [(1, 1)] (user_neg_items (build_index [1] [1] [(1, 1)]))
     (tenth_store 1 1) (sconst 0) = Inl ValueError"
  by (simp add: train_def run_training_def one_epoch_def train_epoch_def sgd_step_def
      randint_def np_getitem_def np_wrap_def negative_sampling_def random_choice_def
      build_index_def index_user_def Let_def setdiff1d_def unique_def get_group_def)

section \<open>Reproducibility of training\<close>

lemma negative_sampling_agree:
  assumes "stake (Suc k) g = stake (Suc k) g'"
  shows "same_upto k (negative_sampling g user neg_items) (negative_sampling g' user neg_items)"
  using assms
  by (auto simp: negative_sampling_def random_choice_def same_upto_def split: option.splits)

lemma sgd_step_agree:
  assumes "stake (Suc (Suc k)) g = stake (Suc (Suc k)) g'"
  shows "same_upto k (sgd_step cfg ratings_arr neg_items (st, g))
                     (sgd_step cfg ratings_arr neg_items (st, g'))"
proof -
  from assms have h: "shd g = shd g'" "stake (Suc k) (stl g) = stake (Suc k) (stl g')"
    by simp_all
  show ?thesis
  proof (cases "randint g (int (length ratings_arr))")
    case (Inl e)
    then have "randint g' (int (length ratings_arr)) = Inl e"
      by (auto simp: randint_def split: if_splits)
    with Inl show ?thesis by (simp add: sgd_step_def same_upto_def)
  next
    case (Inr ig)
    then have ri: "randint g (int (length ratings_arr)) = Inr (fst ig, stl g)"
        and ri': "randint g' (int (length ratings_arr)) = Inr (fst ig, stl g')"
      using h(1) by (auto simp: randint_def split: if_splits)
    show ?thesis
    proof (cases "np_getitem ratings_arr (fst ig)")
      case (Inl e)
      with ri ri' show ?thesis by (simp add: sgd_step_def same_upto_def)
    next
      case (Inr r)
      obtain user pos_item where r: "r = (user, pos_item)" by (cases r)
      have ns: "same_upto k (negative_sampling (stl g) user neg_items)
                            (negative_sampling (stl g') user neg_items)"
        using h(2) by (rule negative_sampling_agree)
      show ?thesis
        using ns ri ri' Inr r
        by (auto simp: sgd_step_def same_upto_def split: sum.splits prod.splits)
    qed
  qed
qed

lemma sgd_steps_agree:
  assumes "stake (k + 2 * n) g = stake (k + 2 * n) g'"
  shows "same_upto k (sgd_steps n cfg ratings_arr neg_items (st, g))
                     (sgd_steps n cfg ratings_arr neg_items (st, g'))"
  using assms
proof (induction n arbitrary: st g g')
  case 0
  then show ?case by (simp add: same_upto_def)
next
  case (Suc n)
  from Suc.prems have "stake (Suc (Suc (k + 2 * n))) g = stake (Suc (Suc (k + 2 * n))) g'"
    by simp
  then have step: "same_upto (k + 2 * n) (sgd_step cfg ratings_arr neg_items (st, g))
                                        (sgd_step cfg ratings_arr neg_items (st, g'))"
    by (rule sgd_step_agree)
  show ?case
  proof (cases "sgd_step cfg ratings_arr neg_items (st, g)")
    case (Inl e)
    with step show ?thesis by (simp add: same_upto_def)
  next
    case (Inr sg1)
    obtain st1 g1 where sg1: "sg1 = (st1, g1)" by (cases sg1)
    from step Inr sg1 obtain g1' where
      s': "sgd_step cfg ratings_arr neg_items (st, g') = Inr (st1, g1')"
      and ag: "stake (k + 2 * n) g1 = stake (k + 2 * n) g1'"
      by (auto simp: same_upto_def split: sum.splits prod.splits)
    from Suc.IH [OF ag] Inr sg1 s' show ?thesis by simp
  qed
qed

lemma sample_negatives_agree:
  assumes "stake (k + length users) g = stake (k + length users) g'"
  shows "same_upto k (sample_negatives g users neg_items) (sample_negatives g' users neg_items)"
  using assms
proof (induction users arbitrary: g g')
  case Nil
  then show ?case by (simp add: same_upto_def)
next
  case (Cons u us)
  from Cons.prems have "stake (Suc (k + length us)) g = stake (Suc (k + length us)) g'"
    by simp
  then have ns: "same_upto (k + length us) (negative_sampling g u neg_items)
                                         (negative_sampling g' u neg_items)"
    by (rule negative_sampling_agree)
  show ?case
  proof (cases "negative_sampling g u neg_items")
    case (Inl e)
    with ns show ?thesis by (simp add: same_upto_def)
  next
    case (Inr ng)
    obtain ni g1 where ng: "ng = (ni, g1)" by (cases ng)
    from ns Inr ng obtain g1' where
      s': "negative_sampling g' u neg_items = Inr (ni, g1')"
      and ag: "stake (k + length us) g1 = stake (k + length us) g1'"
      by (auto simp: same_upto_def split: sum.splits prod.splits)
    from Cons.IH [OF ag] Inr ng s' show ?thesis
      by (auto simp: same_upto_def split: sum.splits prod.splits)
  qed
qed

lemma print_update_agree:
  assumes "stake (k + length samples) g = stake (k + length samples) g'"
  shows "same_upto k (print_update epoch samples neg_items st g)
                     (print_update epoch samples neg_items st g')"
proof -
  have "same_upto k (sample_negatives g (map fst samples) neg_items)
                    (sample_negatives g' (map fst samples) neg_items)"
    using assms sample_negatives_agree [of k "map fst samples" g g' neg_items] by simp
  then show ?thesis
    by (auto simp: print_update_def Let_def same_upto_def split: sum.splits prod.splits)
qed

lemma train_epoch_agree:
  assumes "stake (k + draws_per_epoch cfg ratings_arr) g = stake (k + draws_per_epoch cfg ratings_arr) g'"
  shows "same_upto k (train_epoch cfg ratings_arr neg_items epoch (sl, g))
                     (train_epoch cfg ratings_arr neg_items epoch (sl, g'))"
proof -
  obtain st tr where sl: "sl = (st, tr)" by (cases sl)
  let ?w = "if verbose cfg then length (last_rows 1000 ratings_arr) else 0"
  from assms have "stake ((k + ?w) + 2 * length ratings_arr) g = stake ((k + ?w) + 2 * length ratings_arr) g'"
    by (simp add: draws_per_epoch_def add.commute add.left_commute)
  then have steps: "same_upto (k + ?w) (sgd_steps (length ratings_arr) cfg ratings_arr neg_items (st, g))
                                      (sgd_steps (length ratings_arr) cfg ratings_arr neg_items (st, g'))"
    by (rule sgd_steps_agree)
  show ?thesis
  proof (cases "sgd_steps (length ratings_arr) cfg ratings_arr neg_items (st, g)")
    case (Inl e)
    with steps show ?thesis by (simp add: train_epoch_def sl same_upto_def)
  next
    case (Inr sg1)
    obtain st1 g1 where sg1: "sg1 = (st1, g1)" by (cases sg1)
    from steps Inr sg1 obtain g1' where
      s': "sgd_steps (length ratings_arr) cfg ratings_arr neg_items (st, g') = Inr (st1, g1')"
      and ag: "stake (k + ?w) g1 = stake (k + ?w) g1'"
      by (auto simp: same_upto_def split: sum.splits prod.splits)
    show ?thesis
    proof (cases "verbose cfg")
      case False
      with ag Inr sg1 s' show ?thesis
        by (simp add: train_epoch_def sl same_upto_def)
    next
      case True
      with ag have "stake (k + length (last_rows 1000 ratings_arr)) g1 =
                    stake (k + length (last_rows 1000 ratings_arr)) g1'" by simp
      then have "same_upto k (print_update epoch (last_rows 1000 ratings_arr) neg_items st1 g1)
                             (print_update epoch (last_rows 1000 ratings_arr) neg_items st1 g1')"
        by (rule print_update_agree)
      with True Inr sg1 s' show ?thesis
        by (auto simp: train_epoch_def sl same_upto_def split: sum.splits prod.splits)
    qed
  qed
qed

lemma train_epochs_agree:
  assumes "stake (n * draws_per_epoch cfg ratings_arr) g = stake (n * draws_per_epoch cfg ratings_arr) g'"
  shows "same_upto 0 (train_epochs n epoch cfg ratings_arr neg_items (sl, g))
                     (train_epochs n epoch cfg ratings_arr neg_items (sl, g'))"
  using assms
proof (induction n arbitrary: epoch sl g g')
  case 0
  then show ?case by (simp add: same_upto_def)
next
  case (Suc n)
  let ?c = "draws_per_epoch cfg ratings_arr"
  from Suc.prems have "stake (n * ?c + ?c) g = stake (n * ?c + ?c) g'"
    by (simp add: add.commute)
  then have ep: "same_upto (n * ?c) (train_epoch cfg ratings_arr neg_items epoch (sl, g))
                                   (train_epoch cfg ratings_arr neg_items epoch (sl, g'))"
    by (rule train_epoch_agree)
  show ?case
  proof (cases "train_epoch cfg ratings_arr neg_items epoch (sl, g)")
    case (Inl e)
    with ep show ?thesis by (simp add: same_upto_def)
  next
    case (Inr slg1)
    obtain sl1 g1 where slg1: "slg1 = (sl1, g1)" by (cases slg1)
    from ep Inr slg1 obtain g1' where
      s': "train_epoch cfg ratings_arr neg_items epoch (sl, g') = Inr (sl1, g1')"
      and ag: "stake (n * ?c) g1 = stake (n * ?c) g1'"
      by (auto simp: same_upto_def split: sum.splits prod.splits)
    from Suc.IH [OF ag] Inr slg1 s' show ?thesis by simp
  qed
qed

text \<open>
  What the loop guarantees. Training is a function of the configuration, the
  initial factors, the data and the draws that the process-wide generator
  delivers: two runs that agree on these, up to the number of draws the configured
  epochs consume, end with the same factors and the same loss trace, or raise the
  same exception.
\<close>

lemma train_same_draws:
  assumes "stake (epochs cfg * draws_per_epoch cfg ratings_arr) g =
           stake (epochs cfg * draws_per_epoch cfg ratings_arr) g'"
  shows "train cfg ratings_arr neg_items st g = train cfg ratings_arr neg_items st g'"
  using train_epochs_agree [OF assms, of 0 neg_items "(st, [])"]
  by (auto simp: train_def run_training_def same_upto_def split: sum.splits prod.splits)

lemma train_same_draws_example:
  "train one_epoch [(1, 1)] [1 \<mapsto> [2, 3]] (tenth_store 1 3) (sconst 0) =
   train one_epoch [(1, 1)] [1 \<mapsto> [2, 3]] (tenth_store 1 3) (0 ## 0 ## sconst 1)"
proof -
  have h: "stake (epochs one_epoch * draws_per_epoch one_epoch [(1, 1)]) (sconst 0) =
           stake (epochs one_epoch * draws_per_epoch one_epoch [(1, 1)]) (0 ## 0 ## sconst 1)"
    by (simp add: one_epoch_def draws_per_epoch_def eval_nat_numeral)
  show ?thesis
    by (rule train_same_draws [OF h])
qed

text \<open>
  Claim C2 against the code. The notebook seeds the generator of the factor
  initialisation (\<^verbatim>\<open>np.random.RandomState(seed)\<close>) and the shuffle of the table
  (\<^verbatim>\<open>random_state=seed\<close>), but the training loop and \<open>negative_sampling\<close> draw
  from the process-wide \<^verbatim>\<open>np.random\<close>, which \<open>seed\<close> does not set. One user,
  three items, one training row, one epoch, the same configuration and the same
  initial factors: a run in which that generator delivers 0 takes item 2 as the
  negative item, a run in which it delivers 1 takes item 3, and the two runs end
  with different item factors.
\<close>

theorem train_not_reproducible:
  "train one_epoch [(1, 1)] (user_neg_items (build_index [1] [1, 2, 3] [(1, 1)]))
     (tenth_store 1 3) (sconst 0) =
     Inr (\<lparr>user_factors = [[0.1]], item_factors = [[0.105], [0.095], [0.1]]\<rparr>, []) \<and>
   train one_epoch [(1, 1)] (user_neg_items (build_index [1] [1, 2, 3] [(1, 1)]))
     (tenth_store 1 3) (sconst 1) =
     Inr (\<lparr>user_factors = [[0.1]], item_factors = [[0.105], [0.1], [0.095]]\<rparr>, [])"
  by (simp add: train_def run_training_def one_epoch_def train_epoch_def sgd_step_def
      randint_def np_getitem_def np_wrap_def negative_sampling_def random_choice_def
      build_index_def index_user_def Let_def setdiff1d_def unique_def get_group_def
      tenth_store_def sgd_update_def row_isub_def no_decay_def compute_gradients_def
      dot_def vadd_def vsub_def smul_def sigmoid_def eval_nat_numeral)

section \<open>Scoring\<close>

lemma np_take_rows:
  "np_take M idx = Inr rows \<Longrightarrow> rows = map (\<lambda>i. projr (np_getitem M i)) idx"
  by (induction idx arbitrary: rows) (auto split: sum.splits)

lemma np_take_valid:
  "np_take M idx = Inr rows \<Longrightarrow> i \<in> set idx \<Longrightarrow> \<exists>r. np_getitem M i = Inr r"
  by (induction idx arbitrary: rows) (auto split: sum.splits)

lemma np_getitem_in_rows:
  "1 \<le> i \<Longrightarrow> i \<le> int (length M) \<Longrightarrow> np_getitem M (i - 1) = Inr (M ! nat (i - 1))"
  by (simp add: np_getitem_def np_wrap_def)

lemma np_take_total:
  "\<forall>i \<in> set idx. \<exists>r. np_getitem M i = Inr r \<Longrightarrow> \<exists>rows. np_take M idx = Inr rows"
  by (induction idx) auto

lemma dot_eq_dot_product:
  assumes "length w = length h"
  shows "sum_list (map2 (*) w h) = dot_product w h"
proof -
  have "sum_list (map2 (*) w h) = (\<Sum>f = 0..<length (map2 (*) w h). map2 (*) w h ! f)"
    by (rule sum_list_sum_nth)
  also have "\<dots> = (\<Sum>f = 0..<length w. w ! f * h ! f)"
    using assms by simp
  finally show ?thesis
    by (simp add: dot_product_def atLeast0LessThan)
qed

lemma score_items_map:
  "score_items st user items = Inr preds \<Longrightarrow> preds = map (item_score st user) items"
  by (auto simp: score_items_def reshape_rows_def sum_axis1_def broadcast_mul_def item_score_def
      split: sum.splits if_splits dest!: np_take_rows)

lemma score_items_total:
  assumes "1 \<le> user" "user \<le> int (length (user_factors st))"
    and "\<forall>i \<in> set items. 1 \<le> i \<and> i \<le> int (length (item_factors st))"
    and "items \<noteq> []"
  shows "\<exists>preds. score_items st user items = Inr preds"
proof -
  have u: "np_getitem (user_factors st) (user - 1) = Inr (user_factors st ! nat (user - 1))"
    using assms(1,2) by (rule np_getitem_in_rows)
  have "\<forall>j \<in> set (map (\<lambda>i. i - 1) items). \<exists>r. np_getitem (item_factors st) j = Inr r"
    using assms(3) by (auto simp: np_getitem_in_rows)
  then obtain rows where "np_take (item_factors st) (map (\<lambda>i. i - 1) items) = Inr rows"
    using np_take_total by blast
  with u assms(4) show ?thesis
    by (simp add: score_items_def reshape_rows_def)
qed

lemma score_items_rows:
  assumes "score_items st user items = Inr preds"
  shows "\<exists>w. np_getitem (user_factors st) (user - 1) = Inr w"
    and "i \<in> set items \<Longrightarrow> \<exists>h. np_getitem (item_factors st) (i - 1) = Inr h"
proof -
  from assms obtain w rows where
    w: "np_getitem (user_factors st) (user - 1) = Inr w" and
    rows: "np_take (item_factors st) (map (\<lambda>i. i - 1) items) = Inr rows"
    by (auto simp: score_items_def split: sum.splits)
  from w show "\<exists>w. np_getitem (user_factors st) (user - 1) = Inr w" by blast
  assume "i \<in> set items"
  then have "i - 1 \<in> set (map (\<lambda>i. i - 1) items)" by auto
  with rows show "\<exists>h. np_getitem (item_factors st) (i - 1) = Inr h"
    by (rule np_take_valid)
qed

text \<open>
  Claim C8. For every user and every batch of items, whenever the vectorised
  computation of \<open>get_prediction\<close> (broadcast product, sum along axis 1) returns,
  it returns one score per item, and each score is the dot product of the user's
  row and the item's row as the specification defines it; and it does return for a
  non-empty batch when the identifiers have factor rows. The scoring lines read the
  two matrices and assign neither: the embedded function takes the store as an
  argument and returns the scores only, so two calls on one store return the same
  values.
\<close>

theorem score_items_dot_product:
  assumes "\<forall>r \<in> set (user_factors st) \<union> set (item_factors st). length r = d"
  shows "(\<forall>preds. score_items st user items = Inr preds \<longrightarrow>
            length preds = length items \<and>
            (\<forall>k < length items. \<exists>w h.
               np_getitem (user_factors st) (user - 1) = Inr w \<and>
               np_getitem (item_factors st) (items ! k - 1) = Inr h \<and>
               preds ! k = dot_product w h)) \<and>
         (1 \<le> user \<and> user \<le> int (length (user_factors st)) \<and>
          (\<forall>i \<in> set items. 1 \<le> i \<and> i \<le> int (length (item_factors st))) \<and> items \<noteq> [] \<longrightarrow>
            (\<exists>preds. score_items st user items = Inr preds))"
proof -
  have part1: "length preds = length items \<and>
            (\<forall>k < length items. \<exists>w h.
               np_getitem (user_factors st) (user - 1) = Inr w \<and>
               np_getitem (item_factors st) (items ! k - 1) = Inr h \<and>
               preds ! k = dot_product w h)"
    if p: "score_items st user items = Inr preds" for preds
  proof -
    from p have pm: "preds = map (item_score st user) items" by (rule score_items_map)
    have "\<exists>w h. np_getitem (user_factors st) (user - 1) = Inr w \<and>
            np_getitem (item_factors st) (items ! k - 1) = Inr h \<and>
            preds ! k = dot_product w h"
      if k: "k < length items" for k
    proof -
      from score_items_rows(1) [OF p] obtain w where
        w: "np_getitem (user_factors st) (user - 1) = Inr w" by blast
      from score_items_rows(2) [OF p, of "items ! k"] k obtain h where
        h: "np_getitem (item_factors st) (items ! k - 1) = Inr h" by auto
      have "length w = d" "length h = d"
        using assms np_getitem_mem [OF w] np_getitem_mem [OF h] by auto
      then have "sum_list (map2 (*) w h) = dot_product w h"
        by (simp add: dot_eq_dot_product)
      with w h k pm have "preds ! k = dot_product w h"
        by (simp add: item_score_def)
      with w h show ?thesis by blast
    qed
    with pm show ?thesis by simp
  qed
  have part2: "\<exists>preds. score_items st user items = Inr preds"
    if "1 \<le> user \<and> user \<le> int (length (user_factors st)) \<and>
        (\<forall>i \<in> set items. 1 \<le> i \<and> i \<le> int (length (item_factors st))) \<and> items \<noteq> []"
    using that score_items_total [of user st items] by blast
  from part1 part2 show ?thesis by blast
qed

theorem score_items_dot_product_witness:
  "\<exists>preds. score_items (tenth_store 1 2) 1 [2, 1] = Inr preds \<and> length preds = 2 \<and>
     preds ! 0 = dot_product [0.1] [0.1] \<and> preds ! 1 = dot_product [0.1] [0.1]"
proof -
  have h1: "\<forall>r \<in> set (user_factors (tenth_store 1 2)) \<union> set (item_factors (tenth_store 1 2)).
              length r = 1"
    by (simp add: tenth_store_def)
  have h2: "1 \<le> (1::int) \<and> 1 \<le> int (length (user_factors (tenth_store 1 2))) \<and>
          (\<forall>i \<in> set [2, 1]. 1 \<le> i \<and> i \<le> int (length (item_factors (tenth_store 1 2)))) \<and>
          [2, 1] \<noteq> ([]::int list)"
    by (simp add: tenth_store_def)
  from score_items_dot_product [OF h1, of 1 "[2, 1]"] h2 obtain preds where
    p: "score_items (tenth_store 1 2) 1 [2, 1] = Inr preds" by blast
  from score_items_dot_product [OF h1, of 1 "[2, 1]"] p have
    l: "length preds = length [2::int, 1]" and
    v: "\<forall>k < length [2::int, 1]. \<exists>w h.
               np_getitem (user_factors (tenth_store 1 2)) (1 - 1) = Inr w \<and>
               np_getitem (item_factors (tenth_store 1 2)) ([2, 1] ! k - 1) = Inr h \<and>
               preds ! k = dot_product w h"
    by blast+
  from v [rule_format, of 0] have v0: "preds ! 0 = dot_product [0.1] [0.1]"
    by (auto simp: tenth_store_def np_getitem_def np_wrap_def)
  from v [rule_format, of 1] have v1: "preds ! 1 = dot_product [0.1] [0.1]"
    by (auto simp: tenth_store_def np_getitem_def np_wrap_def)
  from p l v0 v1 show ?thesis by auto
qed

section \<open>Ranking\<close>

lemma dict_set_absent: "k \<notin> fst ` set d \<Longrightarrow> dict_set k v d = d @ [(k, v)]"
  by (induction d) auto

lemma dict_set_present: "distinct (map fst d) \<Longrightarrow> (k, v) \<in> set d \<Longrightarrow> dict_set k v d = d"
  by (induction d) (auto simp: rev_image_eqI)

lemma single_valued_pairs_subset:
  "single_valued_pairs ps \<Longrightarrow> set qs \<subseteq> set ps \<Longrightarrow> single_valued_pairs qs"
  unfolding single_valued_pairs_def by blast

lemma single_valued_pairs_mem:
  "single_valued_pairs ps \<Longrightarrow> p \<in> set ps \<Longrightarrow> q \<in> set ps \<Longrightarrow> fst p = fst q \<Longrightarrow> p = q"
  unfolding single_valued_pairs_def by (metis prod.collapse)

lemma nonincreasing_drop_mid:
  "nonincreasing (xs @ y # ys) \<Longrightarrow> nonincreasing (xs @ ys)"
  by (auto simp: nonincreasing_def sorted_wrt_append)

lemma foldl_dict_set_ranked:
  assumes "distinct (map fst D)"
    and "single_valued_pairs (D @ ps)"
    and "nonincreasing (map snd (D @ ps))"
  shows "distinct (map fst (foldl (\<lambda>d kv. dict_set (fst kv) (snd kv) d) D ps)) \<and>
         fst ` set (foldl (\<lambda>d kv. dict_set (fst kv) (snd kv) d) D ps) = fst ` set (D @ ps) \<and>
         nonincreasing (map snd (foldl (\<lambda>d kv. dict_set (fst kv) (snd kv) d) D ps))"
  using assms
proof (induction ps arbitrary: D)
  case Nil
  then show ?case by simp
next
  case (Cons p ps)
  show ?case
  proof (cases "fst p \<in> fst ` set D")
    case True
    then obtain q where q: "q \<in> set D" "fst q = fst p" by auto
    have "q = p"
      using Cons.prems(2) q by (intro single_valued_pairs_mem [of "D @ p # ps"]) simp_all
    with q have "(fst p, snd p) \<in> set D" by simp
    with Cons.prems(1) have same: "dict_set (fst p) (snd p) D = D"
      by (rule dict_set_present)
    have f: "single_valued_pairs (D @ ps)"
      using Cons.prems(2) by (rule single_valued_pairs_subset) auto
    have s: "nonincreasing (map snd (D @ ps))"
      using Cons.prems(3) nonincreasing_drop_mid [of "map snd D" "snd p" "map snd ps"] by simp
    have k: "fst ` set (D @ ps) = fst ` set (D @ p # ps)"
      using True by auto
    have step: "foldl (\<lambda>d kv. dict_set (fst kv) (snd kv) d) D (p # ps) =
                foldl (\<lambda>d kv. dict_set (fst kv) (snd kv) d) D ps"
      using same by simp
    show ?thesis
      unfolding step k [symmetric] using Cons.IH [OF Cons.prems(1) f s] .
  next
    case False
    then have app: "dict_set (fst p) (snd p) D = D @ [p]"
      by (simp add: dict_set_absent)
    have d: "distinct (map fst (D @ [p]))"
      using Cons.prems(1) False by auto
    have f: "single_valued_pairs ((D @ [p]) @ ps)"
      using Cons.prems(2) by simp
    have s: "nonincreasing (map snd ((D @ [p]) @ ps))"
      using Cons.prems(3) by simp
    have step: "foldl (\<lambda>d kv. dict_set (fst kv) (snd kv) d) D (p # ps) =
                foldl (\<lambda>d kv. dict_set (fst kv) (snd kv) d) (D @ [p]) ps"
      using app by simp
    have k: "fst ` set ((D @ [p]) @ ps) = fst ` set (D @ p # ps)" by simp
    show ?thesis
      unfolding step k [symmetric] using Cons.IH [OF d f s] .
  qed
qed

lemma dict_of_pairs_ranked:
  assumes "single_valued_pairs ps"
    and "nonincreasing (map snd ps)"
  shows "distinct (map fst (dict_of_pairs ps)) \<and> fst ` set (dict_of_pairs ps) = fst ` set ps \<and>
         nonincreasing (map snd (dict_of_pairs ps))"
  using foldl_dict_set_ranked [of "[]" ps] assms by (simp add: dict_of_pairs_def)

lemma set_np_argsort: "set (np_argsort preds) = {0..<length preds}"
  by (simp add: np_argsort_def)

lemma sorted_np_argsort: "sorted (map ((!) preds) (np_argsort preds))"
  by (simp add: np_argsort_def)

lemma sorted_pairs:
  assumes "preds = map sc items"
  shows "zip (map ((!) items) (rev (np_argsort preds))) (map ((!) preds) (rev (np_argsort preds))) =
         map (\<lambda>j. (items ! j, sc (items ! j))) (rev (np_argsort preds))"
proof -
  have "zip (map ((!) items) (rev (np_argsort preds))) (map ((!) preds) (rev (np_argsort preds))) =
        map (\<lambda>j. (items ! j, preds ! j)) (rev (np_argsort preds))"
    by (simp add: zip_map_map zip_same_conv_map)
  also have "\<dots> = map (\<lambda>j. (items ! j, sc (items ! j))) (rev (np_argsort preds))"
    using assms by (auto simp: set_np_argsort)
  finally show ?thesis .
qed

lemma ranked_scores:
  assumes "preds = map sc items"
  shows "distinct (map fst (dict_of_pairs (zip (map ((!) items) (rev (np_argsort preds)))
                                               (map ((!) preds) (rev (np_argsort preds)))))) \<and>
         fst ` set (dict_of_pairs (zip (map ((!) items) (rev (np_argsort preds)))
                                       (map ((!) preds) (rev (np_argsort preds))))) = set items \<and>
         nonincreasing (map snd (dict_of_pairs (zip (map ((!) items) (rev (np_argsort preds)))
                                                    (map ((!) preds) (rev (np_argsort preds))))))"
proof -
  let ?ps = "map (\<lambda>j. (items ! j, sc (items ! j))) (rev (np_argsort preds))"
  have len: "length preds = length items" using assms by simp
  have f: "single_valued_pairs ?ps"
    by (auto simp: single_valued_pairs_def)
  have "map snd ?ps = rev (map ((!) preds) (np_argsort preds))"
    using assms by (auto simp: rev_map set_np_argsort)
  then have s: "nonincreasing (map snd ?ps)"
    using sorted_np_argsort [of preds]
    by (simp add: nonincreasing_def sorted_wrt_rev)
  have "fst ` set ?ps = (!) items ` {0..<length items}"
    by (simp add: image_image set_np_argsort len)
  also have "\<dots> = set items"
    by (auto simp: set_conv_nth)
  finally have k: "fst ` set ?ps = set items" .
  show ?thesis
    using dict_of_pairs_ranked [OF f s] k sorted_pairs [OF assms] by simp
qed

lemma collect_recommendations_take:
  "int (length acc) < N \<Longrightarrow>
   collect_recommendations N acc ps = acc @ take (nat N - length acc) ps"
proof (induction ps arbitrary: acc)
  case Nil
  show ?case by simp
next
  case (Cons p ps)
  show ?case
  proof (cases "int (length (acc @ [p])) = N")
    case True
    then have "nat N - length acc = Suc 0" by auto
    with True show ?thesis by simp
  next
    case False
    with Cons.prems have lt: "int (length (acc @ [p])) < N" by simp
    then obtain m where m: "nat N - length acc = Suc m" "nat N - length (acc @ [p]) = m"
      by (cases "nat N - length acc") auto
    from Cons.IH [OF lt] False m show ?thesis by simp
  qed
qed

lemma get_prediction_ranked:
  assumes "get_prediction catalog neg_items st user None remove_known_pos = Inr predictions"
    and "(if remove_known_pos then neg_items user else Some catalog) = Some candidates"
  shows "distinct (map fst predictions) \<and> fst ` set predictions = set candidates \<and>
         nonincreasing (map snd predictions)"
proof -
  from assms obtain preds where
    sc: "score_items st user candidates = Inr preds" and
    p: "predictions = dict_of_pairs (zip (map ((!) candidates) (rev (np_argsort preds)))
                                        (map ((!) preds) (rev (np_argsort preds))))"
    by (auto simp: get_prediction_def Let_def split: sum.splits if_splits option.splits)
  from sc have "preds = map (item_score st user) candidates" by (rule score_items_map)
  from ranked_scores [OF this] p show ?thesis by simp
qed

lemma get_prediction_total:
  assumes "(if remove_known_pos then neg_items user else Some catalog) = Some candidates"
    and "candidates \<noteq> []"
    and "1 \<le> user" "user \<le> int (length (user_factors st))"
    and "\<forall>i \<in> set candidates. 1 \<le> i \<and> i \<le> int (length (item_factors st))"
  shows "\<exists>predictions. get_prediction catalog neg_items st user None remove_known_pos = Inr predictions"
proof -
  obtain preds where "score_items st user candidates = Inr preds"
    using score_items_total [OF assms(3,4,5,2)] by blast
  with assms(1) show ?thesis
    by (auto simp: get_prediction_def Let_def split: if_splits)
qed

text \<open>
  Claim C5, as the code has it. For a user whose candidate set is not empty (the
  negative pool when known positives are removed, the catalog otherwise) and whose
  identifier and candidates have factor rows, and for every \<open>N \<ge> 1\<close>,
  \<open>get_recommendations\<close> returns a list of length \<open>min N |candidates|\<close>, of distinct
  candidate items, with non-increasing scores.
\<close>

theorem get_recommendations_ranked:
  assumes "1 \<le> N"
    and "(if remove_known_pos then neg_items user else Some catalog) = Some candidates"
    and "candidates \<noteq> []"
    and "1 \<le> user" "user \<le> int (length (user_factors st))"
    and "\<forall>i \<in> set candidates. 1 \<le> i \<and> i \<le> int (length (item_factors st))"
  shows "\<exists>recs. get_recommendations catalog neg_items st user N remove_known_pos = Inr recs \<and>
           length recs = min (nat N) (card (set candidates)) \<and>
           distinct (map fst recs) \<and>
           set (map fst recs) \<subseteq> set candidates \<and>
           nonincreasing (map snd recs)"
proof -
  obtain predictions where
    gp: "get_prediction catalog neg_items st user None remove_known_pos = Inr predictions"
    using get_prediction_total [where neg_items = neg_items and user = user and catalog = catalog
        and remove_known_pos = remove_known_pos, OF assms(2-6)] by blast
  from get_prediction_ranked [OF gp assms(2)] have
    d: "distinct (map fst predictions)" and
    k: "fst ` set predictions = set candidates" and
    s: "nonincreasing (map snd predictions)" by simp_all
  let ?recs = "take (nat N) predictions"
  have cr: "collect_recommendations N [] predictions = ?recs"
    using collect_recommendations_take [of "[]" N predictions] assms(1) by simp
  have "length predictions = card (set (map fst predictions))"
    using distinct_card [OF d] by simp
  then have len: "length predictions = card (set candidates)"
    using k by simp
  have d': "distinct (map fst ?recs)"
    using d by (simp add: take_map [symmetric])
  have k': "set (map fst ?recs) \<subseteq> set candidates"
    using k by (auto dest: in_set_takeD)
  have "map snd ?recs = take (nat N) (map snd predictions)" by (simp add: take_map)
  then have s': "nonincreasing (map snd ?recs)"
    using s by (simp add: nonincreasing_def sorted_wrt_take)
  show ?thesis
    using gp cr len d' k' s' by (simp add: get_recommendations_def)
qed

theorem get_recommendations_ranked_witness:
  "(1::int) \<le> 2 \<and>
   (if True then [1 \<mapsto> [2, 3, 4]] (1::int) else Some [1, 2, 3, 4]) = Some [2, 3, 4] \<and>
   [2, 3, 4] \<noteq> ([]::int list) \<and>
   (1::int) \<le> 1 \<and> 1 \<le> int (length (user_factors (tenth_store 1 4))) \<and>
   int (length (item_factors (tenth_store 1 4))) = 4 \<and>
   (\<exists>recs. get_recommendations [1, 2, 3, 4] [1 \<mapsto> [2, 3, 4]] (tenth_store 1 4) 1 2 True = Inr recs \<and>
      length recs = min (nat 2) (card (set [2::int, 3, 4])) \<and>
      distinct (map fst recs) \<and>
      set (map fst recs) \<subseteq> set [2, 3, 4] \<and>
      nonincreasing (map snd recs))"
proof -
  have h1: "(1::int) \<le> 2" by simp
  have h2: "(if True then [1 \<mapsto> [2, 3, 4]] (1::int) else Some [1, 2, 3, 4]) = Some [2, 3, 4]"
    by simp
  have h3: "[2, 3, 4] \<noteq> ([]::int list)" by simp
  have h4: "(1::int) \<le> 1" by simp
  have h5: "1 \<le> int (length (user_factors (tenth_store 1 4)))"
    by (simp add: tenth_store_def)
  have h6: "\<forall>i \<in> set [2, 3, 4]. 1 \<le> i \<and> i \<le> int (length (item_factors (tenth_store 1 4)))"
    by (simp add: tenth_store_def)
  show ?thesis
    using h5
      get_recommendations_ranked [where neg_items = "[1 \<mapsto> [2, 3, 4]]" and user = 1
        and catalog = "[1, 2, 3, 4]" and remove_known_pos = True, OF h1 h2 h3 h4 h5 h6]
    by (simp add: tenth_store_def)
qed

text \<open>
  A user who has rated the only item of the catalog has no candidate left: the
  call raises instead of returning a list of length 0.
\<close>

theorem get_recommendations_counterexample:
  "get_recommendations [1] (user_neg_items (build_index [1] [1] [(1, 1)]))
     (tenth_store 1 1) 1 1 True = Inl ValueError"
  by (simp add: get_recommendations_def get_prediction_def score_items_def reshape_rows_def
      np_getitem_def np_wrap_def tenth_store_def
      build_index_def index_user_def Let_def setdiff1d_def unique_def get_group_def)

text \<open>
  Claim C10, as the code has it. For a user whose negative candidate pool is empty
  (and whose identifier has a factor row) and every \<open>N\<close>,
  \<open>get_recommendations\<close> with known positives removed raises ValueError: the batch
  of item rows is empty and numpy cannot reshape it to \<open>(0, -1)\<close>. No list is
  returned.
\<close>

theorem get_recommendations_empty_pool:
  assumes "neg_items user = Some []"
    and "1 \<le> user" "user \<le> int (length (user_factors st))"
  shows "get_recommendations catalog neg_items st user N True = Inl ValueError"
  using assms
  by (simp add: get_recommendations_def get_prediction_def score_items_def reshape_rows_def
      np_getitem_in_rows)

theorem get_recommendations_empty_pool_witness:
  "[1 \<mapsto> []] (1::int) = Some ([]::int list) \<and> (1::int) \<le> 1 \<and>
   1 \<le> int (length (user_factors (tenth_store 1 2))) \<and>
   get_recommendations [1, 2] [1 \<mapsto> []] (tenth_store 1 2) 1 3 True = Inl ValueError"
proof -
  have h1: "[1 \<mapsto> []] (1::int) = Some ([]::int list)" by simp
  have h2: "(1::int) \<le> 1" by simp
  have h3: "1 \<le> int (length (user_factors (tenth_store 1 2)))"
    by (simp add: tenth_store_def)
  show ?thesis
    using h1 h2 h3
      get_recommendations_empty_pool [where neg_items = "[1 \<mapsto> []]" and user = 1
        and catalog = "[1, 2]" and N = 3, OF h1 h2 h3]
    by blast
qed

text \<open>
  One user who has rated both items of the catalog, asked for five
  recommendations.
\<close>

theorem get_recommendations_empty_pool_counterexample:
  "get_recommendations [1, 2] (user_neg_items (build_index [1] [1, 2] [(1, 1), (1, 2)]))
     (tenth_store 1 2) 1 5 True = Inl ValueError"
  by (simp add: get_recommendations_def get_prediction_def score_items_def reshape_rows_def
      np_getitem_def np_wrap_def tenth_store_def
      build_index_def index_user_def Let_def setdiff1d_def unique_def get_group_def)

section \<open>Evaluation\<close>

lemma map_of_dict_set: "map_of (dict_set k v d) = (map_of d)(k \<mapsto> v)"
  by (induction d) (auto simp: fun_eq_iff)

lemma set_dict_set: "set (dict_set k v d) \<subseteq> insert (k, v) (set d)"
  by (induction d) auto

lemma keys_dict_set: "fst ` set (dict_set k v d) = insert k (fst ` set d)"
  by (induction d) (auto simp: rev_image_eqI)

lemma not_none_values_Nil [simp]: "not_none_values [] = []"
  by (simp add: not_none_values_def)

lemma not_none_values_Cons [simp]:
  "not_none_values ((k, v) # d) = (case v of None \<Rightarrow> [] | Some x \<Rightarrow> [x]) @ not_none_values d"
  by (simp add: not_none_values_def)

lemma not_none_values_all_None: "snd ` set d \<subseteq> {None} \<Longrightarrow> not_none_values d = []"
  by (induction d) (auto split: option.splits)

lemma not_none_values_dict_set:
  assumes "\<forall>x. (k, Some x) \<notin> set d"
  shows "sum_list (not_none_values (dict_set k (Some (v::real)) d)) = sum_list (not_none_values d) + v \<and>
         length (not_none_values (dict_set k (Some v) d)) = Suc (length (not_none_values d))"
  using assms
proof (induction d)
  case Nil
  show ?case by simp
next
  case (Cons p d)
  obtain k' w where p: "p = (k', w)" by (cases p)
  show ?case
  proof (cases "k' = k")
    case True
    with Cons.prems p have "w = None" by (cases w) auto
    with True p show ?thesis by (simp add: add.commute)
  next
    case False
    have "\<forall>x. (k, Some x) \<notin> set d" using Cons.prems by auto
    from Cons.IH [OF this] False p show ?thesis by (simp add: algebra_simps)
  qed
qed

lemma foldl_dict_set_None_values:
  "snd ` set D \<subseteq> {None} \<Longrightarrow>
   snd ` set (foldl (\<lambda>d kv. dict_set (fst kv) (snd kv) d) D (map (\<lambda>u. (u, None)) us)) \<subseteq> {None}"
proof (induction us arbitrary: D)
  case Nil
  then show ?case by simp
next
  case (Cons u us)
  have "snd ` set (dict_set u None D) \<subseteq> {None}"
    using set_dict_set [of u None D] Cons.prems by fastforce
  from Cons.IH [OF this] show ?case by simp
qed

lemma foldl_dict_set_None_keys:
  "fst ` set (foldl (\<lambda>d kv. dict_set (fst kv) (snd kv) d) D (map (\<lambda>u. (u, None)) us)) =
     fst ` set D \<union> set us"
proof (induction us arbitrary: D)
  case Nil
  show ?case by simp
next
  case (Cons u us)
  show ?case
    using Cons.IH [of "dict_set u None D"] by (simp add: keys_dict_set)
qed

lemma fromkeys_values:
  "snd ` set (dict_of_pairs (map (\<lambda>u. (u, None)) users)) \<subseteq> {None}"
  unfolding dict_of_pairs_def by (rule foldl_dict_set_None_values) simp

lemma fromkeys_keys:
  "fst ` set (dict_of_pairs (map (\<lambda>u. (u, None)) users)) = set users"
  unfolding dict_of_pairs_def by (simp add: foldl_dict_set_None_keys)

lemma map_of_all_None:
  "snd ` set d \<subseteq> {None} \<Longrightarrow> map_of d u = (if u \<in> fst ` set d then Some None else None)"
  by (induction d) (auto simp: rev_image_eqI)

lemma eval_user_ok:
  assumes "get_recommendations catalog neg_items st user N True = Inr recs"
    and "map_of relevant_items user = Some relevant" and "N \<noteq> 0"
  shows "eval_user catalog neg_items st relevant_items N prec_at_N user =
         Inr (dict_set user (Some (user_precision catalog neg_items st N (user, relevant))) prec_at_N)"
  using assms
  by (simp add: eval_user_def Let_def user_precision_def precision_at_N_def length_intersect1d)

lemma eval_users_ok:
  assumes "N \<noteq> 0"
    and "distinct (map fst urs)"
    and "\<forall>ur \<in> set urs. map_of relevant_items (fst ur) = Some (snd ur)"
    and "\<forall>ur \<in> set urs. \<exists>recs. get_recommendations catalog neg_items st (fst ur) N True = Inr recs"
    and "\<forall>ur \<in> set urs. \<forall>x. (fst ur, Some x) \<notin> set D"
  shows "\<exists>D'. eval_users catalog neg_items st relevant_items N D (map fst urs) = Inr D' \<and>
           (\<forall>ur \<in> set urs. map_of D' (fst ur) = Some (Some (user_precision catalog neg_items st N ur))) \<and>
           (\<forall>u. u \<notin> fst ` set urs \<longrightarrow> map_of D' u = map_of D u) \<and>
           sum_list (not_none_values D') =
             sum_list (not_none_values D) + sum_list (map (user_precision catalog neg_items st N) urs) \<and>
           length (not_none_values D') = length (not_none_values D) + length urs"
  using assms(2-5)
proof (induction urs arbitrary: D)
  case Nil
  show ?case by simp
next
  case (Cons ur urs)
  obtain u rel where ur: "ur = (u, rel)" by (cases ur)
  let ?v = "user_precision catalog neg_items st N (u, rel)"
  let ?D1 = "dict_set u (Some ?v) D"
  from Cons.prems(3) ur obtain recs where
    recs: "get_recommendations catalog neg_items st u N True = Inr recs" by auto
  from Cons.prems(2) ur have rel: "map_of relevant_items u = Some rel" by auto
  have step: "eval_user catalog neg_items st relevant_items N D u = Inr ?D1"
    using recs rel assms(1) by (rule eval_user_ok)
  have nos: "\<forall>x. (u, Some x) \<notin> set D" using Cons.prems(4) ur by auto
  have u_notin: "u \<notin> fst ` set urs" using Cons.prems(1) ur by auto
  have d: "distinct (map fst urs)" using Cons.prems(1) by simp
  have m: "\<forall>ur \<in> set urs. map_of relevant_items (fst ur) = Some (snd ur)"
    using Cons.prems(2) by simp
  have r: "\<forall>ur \<in> set urs. \<exists>recs. get_recommendations catalog neg_items st (fst ur) N True = Inr recs"
    using Cons.prems(3) by simp
  have n: "\<forall>ur \<in> set urs. \<forall>x. (fst ur, Some x) \<notin> set ?D1"
  proof (intro ballI allI notI)
    fix ur' x assume a: "ur' \<in> set urs" and b: "(fst ur', Some x) \<in> set ?D1"
    from a u_notin have ne: "fst ur' \<noteq> u" by auto
    from b set_dict_set [of u "Some ?v" D] ne have "(fst ur', Some x) \<in> set D" by auto
    with Cons.prems(4) a show False by auto
  qed
  from Cons.IH [OF d m r n] obtain D' where
    D': "eval_users catalog neg_items st relevant_items N ?D1 (map fst urs) = Inr D'"
    and mp: "\<forall>ur \<in> set urs. map_of D' (fst ur) = Some (Some (user_precision catalog neg_items st N ur))"
    and other: "\<forall>w. w \<notin> fst ` set urs \<longrightarrow> map_of D' w = map_of ?D1 w"
    and sm: "sum_list (not_none_values D') =
             sum_list (not_none_values ?D1) + sum_list (map (user_precision catalog neg_items st N) urs)"
    and ln: "length (not_none_values D') = length (not_none_values ?D1) + length urs"
    by blast
  have nn: "sum_list (not_none_values ?D1) = sum_list (not_none_values D) + ?v"
           "length (not_none_values ?D1) = Suc (length (not_none_values D))"
    using not_none_values_dict_set [OF nos, of ?v] by simp_all
  have c1: "eval_users catalog neg_items st relevant_items N D (map fst (ur # urs)) = Inr D'"
    using step D' ur by simp
  have c2: "\<forall>ur' \<in> set (ur # urs). map_of D' (fst ur') =
              Some (Some (user_precision catalog neg_items st N ur'))"
    using mp other u_notin ur by (simp add: map_of_dict_set)
  have c3: "\<forall>w. w \<notin> fst ` set (ur # urs) \<longrightarrow> map_of D' w = map_of D w"
    using other ur by (simp add: map_of_dict_set)
  have c4: "sum_list (not_none_values D') =
             sum_list (not_none_values D) +
             sum_list (map (user_precision catalog neg_items st N) (ur # urs))"
    using sm nn ur by simp
  have c5: "length (not_none_values D') = length (not_none_values D) + length (ur # urs)"
    using ln nn by simp
  from c1 c2 c3 c4 c5 show ?case by blast
qed

lemma get_recommendations_total:
  assumes "(if remove_known_pos then neg_items user else Some catalog) = Some candidates"
    and "candidates \<noteq> []"
    and "1 \<le> user" "user \<le> int (length (user_factors st))"
    and "\<forall>i \<in> set candidates. 1 \<le> i \<and> i \<le> int (length (item_factors st))"
  shows "\<exists>recs. get_recommendations catalog neg_items st user N remove_known_pos = Inr recs"
proof -
  obtain predictions where
    "get_prediction catalog neg_items st user None remove_known_pos = Inr predictions"
    using get_prediction_total [where neg_items = neg_items and user = user and catalog = catalog
        and remove_known_pos = remove_known_pos, OF assms] by blast
  then show ?thesis by (simp add: get_recommendations_def)
qed

lemma precision_scenario_C:
  "card (set recommended \<inter> set relevant) = 3 \<Longrightarrow> precision_at_N recommended relevant 10 = 0.3"
  by (simp add: precision_at_N_def)

text \<open>
  Claim C6. With \<open>N \<noteq> 0\<close> and recommendations available for every user of
  \<open>relevant_items\<close>, the evaluation loop stores for each such user the value
  \<open>|recommended \<inter> relevant| / N\<close>, leaves every other user of \<open>data.users\<close> at
  \<open>None\<close>, and the mean of the last cell is the sum of the stored values divided by
  the number of users of \<open>relevant_items\<close>: users without relevant items do not
  count, neither as zero nor in the denominator.
\<close>

theorem evaluate_precision:
  assumes "distinct (map fst relevant_items)" and "N \<noteq> 0"
    and "\<forall>ur \<in> set relevant_items.
           \<exists>recs. get_recommendations catalog neg_items st (fst ur) N True = Inr recs"
  shows "\<exists>prec_at_N mean.
           evaluate catalog users neg_items st relevant_items N = Inr (prec_at_N, mean) \<and>
           (\<forall>ur \<in> set relevant_items.
              map_of prec_at_N (fst ur) = Some (Some (user_precision catalog neg_items st N ur))) \<and>
           (\<forall>u. u \<notin> fst ` set relevant_items \<longrightarrow>
              map_of prec_at_N u = (if u \<in> set users then Some None else None)) \<and>
           mean = (if relevant_items = [] then None
                   else Some (sum_list (map (user_precision catalog neg_items st N) relevant_items) /
                              real (length relevant_items)))"
proof -
  let ?D0 = "dict_of_pairs (map (\<lambda>u. (u, None::real option)) users)"
  have none: "snd ` set ?D0 \<subseteq> {None}"
    by (rule fromkeys_values)
  have keys: "fst ` set ?D0 = set users"
    by (rule fromkeys_keys)
  have m: "\<forall>ur \<in> set relevant_items. map_of relevant_items (fst ur) = Some (snd ur)"
    using assms(1) by auto
  have n: "\<forall>ur \<in> set relevant_items. \<forall>x. (fst ur, Some x) \<notin> set ?D0"
    using none by (auto simp: subset_iff image_iff)
  from eval_users_ok [OF assms(2) assms(1) m assms(3) n] obtain D' where
    D': "eval_users catalog neg_items st relevant_items N ?D0 (map fst relevant_items) = Inr D'"
    and mp: "\<forall>ur \<in> set relevant_items.
               map_of D' (fst ur) = Some (Some (user_precision catalog neg_items st N ur))"
    and other: "\<forall>u. u \<notin> fst ` set relevant_items \<longrightarrow> map_of D' u = map_of ?D0 u"
    and sm: "sum_list (not_none_values D') =
             sum_list (not_none_values ?D0) +
             sum_list (map (user_precision catalog neg_items st N) relevant_items)"
    and ln: "length (not_none_values D') = length (not_none_values ?D0) + length relevant_items"
    by blast
  have nn0: "not_none_values ?D0 = []"
    using none by (rule not_none_values_all_None)
  have ev: "evaluate catalog users neg_items st relevant_items N =
            Inr (D', np_mean (not_none_values D'))"
    using D' by (simp add: evaluate_def)
  have oth: "\<forall>u. u \<notin> fst ` set relevant_items \<longrightarrow>
               map_of D' u = (if u \<in> set users then Some None else None)"
    using other map_of_all_None [OF none] keys by simp
  have len: "length (not_none_values D') = length relevant_items"
    using ln nn0 by simp
  have mean: "np_mean (not_none_values D') =
        (if relevant_items = [] then None
         else Some (sum_list (map (user_precision catalog neg_items st N) relevant_items) /
                    real (length relevant_items)))"
  proof (cases "relevant_items = []")
    case True
    with len show ?thesis by (simp add: np_mean_def)
  next
    case False
    with len have "not_none_values D' \<noteq> []" by auto
    with False sm nn0 len show ?thesis by (simp add: np_mean_def)
  qed
  from ev mp oth mean show ?thesis by simp
qed

theorem evaluate_precision_witness:
  "\<exists>prec_at_N mean.
     evaluate [1, 2, 3] [1, 2] [1 \<mapsto> [2, 3]] (tenth_store 2 3) [(1, [2])] 2 = Inr (prec_at_N, mean) \<and>
     (\<forall>ur \<in> set [(1, [2])].
        map_of prec_at_N (fst ur) =
          Some (Some (user_precision [1, 2, 3] [1 \<mapsto> [2, 3]] (tenth_store 2 3) 2 ur))) \<and>
     (\<forall>u. u \<notin> fst ` set [(1::int, [2::int])] \<longrightarrow>
        map_of prec_at_N u = (if u \<in> set [1, 2] then Some None else None)) \<and>
     mean = (if [(1::int, [2::int])] = [] then None
             else Some (sum_list (map (user_precision [1, 2, 3] [1 \<mapsto> [2, 3]] (tenth_store 2 3) 2)
                                      [(1, [2])]) /
                        real (length [(1::int, [2::int])])))"
proof -
  have h1: "distinct (map fst [(1::int, [2::int])])" by simp
  have h2: "(2::int) \<noteq> 0" by simp
  have "\<exists>recs. get_recommendations [1, 2, 3] [1 \<mapsto> [2, 3]] (tenth_store 2 3) 1 2 True = Inr recs"
    by (rule get_recommendations_total [where candidates = "[2, 3]"])
       (simp_all add: tenth_store_def)
  then have h3: "\<forall>ur \<in> set [(1::int, [2::int])].
      \<exists>recs. get_recommendations [1, 2, 3] [1 \<mapsto> [2, 3]] (tenth_store 2 3) (fst ur) 2 True = Inr recs"
    by simp
  show ?thesis
    by (rule evaluate_precision [OF h1 h2 h3])
qed

section \<open>Identifiers and factor rows\<close>

text \<open>
  Claim C9 against the code. The loop and \<open>get_prediction\<close> address the row of an
  identifier as \<open>id - 1\<close>; the source marks the mapping to a compact zero-based
  space as still to be done (\<^verbatim>\<open>TODO: Align indices by making mapping user ids to
  compact and 0-indexed space\<close>). With the item catalog \<open>{1, 3}\<close> the item matrix
  has two rows and item 3 is looked up in row 2: training and recommendation both
  raise IndexError.
\<close>

theorem index_gap_catalog:
  "train one_epoch [(1, 3)] (user_neg_items (build_index [1] [1, 3] [(1, 3)]))
     (tenth_store 1 2) (sconst 0) = Inl IndexError \<and>
   get_recommendations [1, 3] (user_neg_items (build_index [1] [1, 3] [(1, 3)]))
     (tenth_store 1 2) 1 1 False = Inl IndexError"
  by (simp add: train_def run_training_def one_epoch_def train_epoch_def sgd_step_def
      randint_def np_getitem_def np_wrap_def negative_sampling_def random_choice_def
      build_index_def index_user_def Let_def setdiff1d_def unique_def get_group_def
      tenth_store_def sgd_update_def
      get_recommendations_def get_prediction_def score_items_def)

end
